theory Spec2Isabelle
  imports Main
begin

section \<open>Python strings\<close>

text \<open>
  A Python \<open>str\<close> is a sequence of Unicode code points. The site's text is Devanagari,
  so a code point is a natural number and a string is a list of them. ASCII literals of
  the source are written \<open>u ''...''\<close>; all other literals are spelled out as code points.
\<close>

type_synonym ustr = "nat list"

definition u :: "string \<Rightarrow> ustr" where
  "u s = map of_char s"

text \<open>
  \<open>str.isspace\<close> for one code point: the characters that \<open>str.strip()\<close> and
  \<open>str.split()\<close> (both without arguments) treat as whitespace.
\<close>

definition isspace :: "nat \<Rightarrow> bool" where
  "isspace c =
     ((9 \<le> c \<and> c \<le> 13) \<or> (28 \<le> c \<and> c \<le> 32) \<or> c = 133 \<or> c = 160 \<or> c = 5760 \<or>
      (8192 \<le> c \<and> c \<le> 8202) \<or> c = 8232 \<or> c = 8233 \<or> c = 8239 \<or> c = 8287 \<or>
      c = 12288)"

text \<open>\<open>s.strip()\<close>\<close>

definition py_strip :: "ustr \<Rightarrow> ustr" where
  "py_strip s = rev (dropWhile isspace (rev (dropWhile isspace s)))"

text \<open>\<open>s.startswith(p)\<close>\<close>

definition startswith :: "ustr \<Rightarrow> ustr \<Rightarrow> bool" where
  "startswith s p = (take (length p) s = p)"

text \<open>\<open>sub in s\<close> for strings: \<open>sub\<close> occurs in \<open>s\<close> as a contiguous run.\<close>

fun py_in :: "ustr \<Rightarrow> ustr \<Rightarrow> bool" where
  "py_in sub [] = (sub = [])"
| "py_in sub (c # cs) = (startswith (c # cs) sub \<or> py_in sub cs)"

text \<open>
  \<open>s.split()\<close>: the maximal runs of non-whitespace characters, in order. The second
  argument is the run being read.
\<close>

fun split_ws :: "ustr \<Rightarrow> ustr \<Rightarrow> ustr list" where
  "split_ws [] w = (if w = [] then [] else [w])"
| "split_ws (c # cs) w =
     (if isspace c then (if w = [] then split_ws cs [] else w # split_ws cs [])
      else split_ws cs (w @ [c]))"

definition py_split :: "ustr \<Rightarrow> ustr list" where
  "py_split s = split_ws s []"

text \<open>
  \<open>s.split(sep)\<close> for a one-character separator: the pieces between separators, empty
  pieces included; the result always has at least one element.
\<close>

fun split_on :: "nat \<Rightarrow> ustr \<Rightarrow> ustr \<Rightarrow> ustr list" where
  "split_on sep [] w = [w]"
| "split_on sep (c # cs) w =
     (if c = sep then w # split_on sep cs [] else split_on sep cs (w @ [c]))"

definition py_split_sep :: "nat \<Rightarrow> ustr \<Rightarrow> ustr list" where
  "py_split_sep sep s = split_on sep s []"

text \<open>
  \<open>s.replace(old, new)\<close>: the occurrences of \<open>old\<close> are replaced from left to right
  without overlap.
\<close>

function py_replace :: "ustr \<Rightarrow> ustr \<Rightarrow> ustr \<Rightarrow> ustr" where
  "py_replace old new [] = (if old = [] then new else [])"
| "py_replace old new (c # cs) =
     (if startswith (c # cs) old then new @ py_replace old new (drop (length old - 1) cs)
      else c # py_replace old new cs)"
  by pat_completeness auto
termination
  by (relation "measure (\<lambda>(old, new, s). length s)") auto

section \<open>Configuration\<close>

definition BASE_URL :: ustr where
  "BASE_URL = u ''https://kavitakosh.org''"

definition INDEX_URL :: ustr where
  "INDEX_URL = BASE_URL @ u ''/kk/'' @
     [2352, 2330, 2344, 2366, 2325, 2366, 2352, 2379, 2306, 95, 2325, 2368, 95, 2360, 2370, 2330,
      2368]"

definition SAVE_DIR :: ustr where
  "SAVE_DIR = u ''new/poets''"

text \<open>The prefixes of the category and the talk namespace, and of every article.\<close>

definition KK_PREFIX :: ustr where
  "KK_PREFIX = u ''/kk/''"

definition CATEGORY_PREFIX :: ustr where
  "CATEGORY_PREFIX = u ''/kk/'' @ [2358, 2381, 2352, 2375, 2339, 2368, 58]"

definition TALK_PREFIX :: ustr where
  "TALK_PREFIX = u ''/kk/'' @ [2357, 2366, 2352, 2381, 2340, 2366, 58]"

text \<open>The two denylists; Python sets, read only through \<open>in\<close>.\<close>

definition SKIP_LINK_WORDS :: "ustr list" where
  "SKIP_LINK_WORDS =
    [[2346, 2371, 2359, 2381, 2336],
     [2360, 2381, 2352, 2379, 2340, 32, 2342, 2375, 2326, 2375, 2306],
     [2311, 2340, 2367, 2361, 2366, 2360],
     [2330, 2352, 2381, 2330, 2366],
     [2354, 2377, 2327, 32, 2311, 2344],
     [2354, 2377, 2327, 2367, 2344],
     [2325, 2357, 2367, 2340, 2366, 32, 2325, 2379, 2358, 32, 2326, 2379, 2332],
     [2312, 45, 2346, 2340, 2381, 2352, 2367, 2325, 2366, 2319, 2305],
     [2312, 45, 2346, 2369, 2360, 2381, 2340, 2325, 2375, 2306],
     [2357, 2367, 2343, 2366, 2319, 2305],
     [2357, 2367, 2359, 2351],
     [2347, 2364, 2367, 2354, 2381, 2350, 2368, 32, 2327, 2368, 2340],
     [2398, 2367, 2354, 2381, 2350, 2368, 32, 2327, 2368, 2340],
     [2309, 2344, 2369, 2357, 2366, 2342],
     [2358, 2381, 2352, 2375, 2339, 2368],
     [2350, 2369, 2326, 2346, 2371, 2359, 2381, 2336],
     [2357, 2367, 2342, 2375, 2358, 2368],
     [2325, 2357, 2367, 2340, 2366, 32, 2325, 2379, 2358],
     [2350, 2361, 2340, 2381, 2340, 2381, 2357, 2346, 2370, 2352, 2381, 2339, 32, 2325, 2337, 2364, 2367, 2351, 2366, 2305],
     [2344, 2319, 32, 2332, 2369, 2337, 2364, 2375, 32, 2346, 2344, 2381, 2344, 2379, 2306, 32, 2325, 2368, 32, 2360, 2370, 2330, 2368],
     [2309, 2344, 2381, 2351, 32, 2349, 2366, 2359, 2366, 2319, 2305],
     [2335, 2366, 2311, 2346, 2367, 2306, 2327, 32, 2335, 2370, 2354, 2381, 2360],
     [2327, 2342, 2381, 2351, 32, 2325, 2379, 2358],
     [2352, 2330, 2344, 2366, 2325, 2366, 2352, 2379, 2306, 32, 2325, 2368, 32, 2360, 2370, 2330, 2368]]"

definition LANG_WORDS :: "ustr list" where
  "LANG_WORDS =
    [[2361, 2367, 2344, 2381, 2342, 2368],
     [2361, 2367, 2344, 2381, 2342, 2368, 32, 47, 32, 2313, 2352, 2381, 2342, 2370],
     [2313, 2352, 2381, 2342, 2370],
     [2349, 2379, 2332, 2346, 2369, 2352, 2368],
     [2350, 2376, 2341, 2367, 2354, 2368],
     [2352, 2366, 2332, 2360, 2381, 2341, 2366, 2344, 2368],
     [2309, 2306, 2327, 2367, 2325, 2366],
     [2309, 2357, 2343, 2368],
     [2344, 2375, 2346, 2366, 2354, 2368],
     [2361, 2352, 2367, 2351, 2366, 2339, 2357, 2368],
     [2348, 2381, 2352, 2332, 32, 2349, 2366, 2359, 2366],
     [2360, 2306, 2360, 2381, 2325, 2371, 2340, 2350, 2381],
     [2331, 2340, 2381, 2340, 2368, 2360, 2327, 2338, 2364, 2368],
     [2360, 2367, 2344, 2381, 2343, 2368],
     [2350, 2352, 2366, 2336, 2368],
     [2327, 2369, 2332, 2352, 2366, 2340, 2368],
     [2346, 2366, 2354, 2367],
     [2327, 2397, 2357, 2366, 2354, 2368]]"

section \<open>The outside world\<close>

text \<open>
  The markup parser is an external library. A parsed page is modelled by what the program
  reads from it: the anchors that \<open>select("#mw-content-text a")\<close> returns in document
  order, the element \<open>select_one\<close> finds for a selector (if any), and the text of the
  whole page. An element is read only through \<open>get_text("\n", strip=True)\<close>, and an
  anchor only through \<open>get_text()\<close> and \<open>get("href")\<close>, which is \<open>None\<close> for an anchor
  without that attribute.
\<close>

datatype element = Element (get_text_nl: ustr)

record anchor =
  get_text :: ustr
  href_attr :: "ustr option"

record soup =
  content_anchors :: "anchor list"
  select_one :: "string \<Rightarrow> element option"
  soup_text_nl :: ustr

text \<open>
  The site answers the \<open>n\<close>-th request of a run, for a URL, with a page, or the request
  fails. A page may differ from one request to the next.
\<close>

type_synonym web = "nat \<Rightarrow> ustr \<Rightarrow> soup option"

datatype error = RetrievalError | IndexError | OSError

text \<open>The values written to the output documents.\<close>

datatype jval = JStr ustr | JList "jval list" | JObj "(string \<times> jval) list"

text \<open>
  What the program does to the world: the URLs it has requested, in order, the number of
  pauses it has made, and the documents it has written. An exception leaves the effects
  made before it in place, so a computation returns the world also when it fails.
\<close>

record world =
  fetched :: "ustr list"
  sleeps :: nat
  files :: "ustr \<rightharpoonup> jval"

type_synonym 'a m = "world \<Rightarrow> (error + 'a) \<times> world"

definition sleep_polite :: "world \<Rightarrow> world" where
  "sleep_polite st = st\<lparr>sleeps := sleeps st + 1\<rparr>"

definition get_soup :: "web \<Rightarrow> ustr \<Rightarrow> soup m" where
  "get_soup web url st =
     (let st' = st\<lparr>fetched := fetched st @ [url]\<rparr>
      in case web (length (fetched st)) url of
           None \<Rightarrow> (Inl RetrievalError, st')
         | Some page \<Rightarrow> (Inr page, st'))"

section \<open>Helpers\<close>

text \<open>
  Console output is not modelled, and neither is the creation of the output directory
  when the module is loaded. A pause is counted, not timed.
\<close>

definition is_navigation_text :: "ustr \<Rightarrow> bool" where
  "is_navigation_text text =
     (if text = [] then True
      else let t = py_strip text in
        if t \<in> set SKIP_LINK_WORDS \<or> t \<in> set LANG_WORDS then True
        else if list_ex (\<lambda>sym. py_in sym t) [u ''...'', u ''|''] then True
        else False)"

text \<open>\<open>a.get("href") or ""\<close>\<close>

definition href_or_empty :: "anchor \<Rightarrow> ustr" where
  "href_or_empty a = (case href_attr a of None \<Rightarrow> [] | Some h \<Rightarrow> h)"

section \<open>Step 1: the poets of the index page\<close>

text \<open>
  The loop of \<open>get_poet_list\<close> over the anchors; \<open>poets\<close> is the list built so far. The
  loop stops as soon as the list has reached the limit, which is tested after an append
  only.
\<close>

fun poet_list_loop :: "int \<Rightarrow> anchor list \<Rightarrow> (ustr \<times> ustr) list \<Rightarrow> (ustr \<times> ustr) list" where
  "poet_list_loop limit [] poets = poets"
| "poet_list_loop limit (a # as) poets =
     (let name = py_strip (get_text a); href = href_or_empty a in
      if \<not> startswith href KK_PREFIX then poet_list_loop limit as poets
      else if is_navigation_text name then poet_list_loop limit as poets
      else if startswith href CATEGORY_PREFIX \<or> startswith href TALK_PREFIX
        then poet_list_loop limit as poets
      else
        let full_url = BASE_URL @ href; poets' = poets @ [(name, full_url)] in
        if int (length poets') \<ge> limit then poets' else poet_list_loop limit as poets')"

definition get_poet_list :: "web \<Rightarrow> int \<Rightarrow> ((ustr \<times> ustr) list) m" where
  "get_poet_list web limit st =
     (case get_soup web INDEX_URL st of
        (Inl e, st1) \<Rightarrow> (Inl e, st1)
      | (Inr page, st1) \<Rightarrow> (Inr (poet_list_loop limit (content_anchors page) []), st1))"

section \<open>Step 2: the works of a poet\<close>

definition normalize_poet_name :: "ustr \<Rightarrow> ustr" where
  "normalize_poet_name name =
     py_strip (py_replace (u [CHR 0x27, CHR 0x27]) (u [CHR 0x22])
       (py_replace [8221] (u [CHR 0x22]) (py_replace [8220] (u [CHR 0x22]) name)))"

text \<open>\<open>text.split("/")[-1].strip()\<close>; the split is never empty.\<close>

definition last_part_of :: "ustr \<Rightarrow> ustr" where
  "last_part_of text = py_strip (last (py_split_sep (of_char CHR ''/'') text))"

text \<open>The loop of \<open>get_poet_works\<close>; \<open>works\<close> is the list built so far.\<close>

fun poet_works_loop :: "ustr \<Rightarrow> ustr \<Rightarrow> anchor list \<Rightarrow> (ustr \<times> ustr) list \<Rightarrow> (ustr \<times> ustr) list" where
  "poet_works_loop norm_poet main_name_token [] works = works"
| "poet_works_loop norm_poet main_name_token (a # as) works =
     (let text = py_strip (get_text a); href = href_or_empty a in
      if \<not> startswith href KK_PREFIX then poet_works_loop norm_poet main_name_token as works
      else if is_navigation_text text then poet_works_loop norm_poet main_name_token as works
      else if \<not> py_in (u '' / '') text then poet_works_loop norm_poet main_name_token as works
      else
        let last_part = last_part_of text in
        if \<not> py_in main_name_token last_part \<and> \<not> py_in norm_poet last_part
          then poet_works_loop norm_poet main_name_token as works
        else
          let full_url = BASE_URL @ href in
          poet_works_loop norm_poet main_name_token as (works @ [(text, full_url)]))"

text \<open>
  The page is requested first; \<open>norm_poet.split()[0]\<close> then raises when the normalised
  name has no token.
\<close>

definition get_poet_works :: "web \<Rightarrow> ustr \<Rightarrow> ustr \<Rightarrow> ((ustr \<times> ustr) list) m" where
  "get_poet_works web poet_name poet_url st =
     (case get_soup web poet_url st of
        (Inl e, st1) \<Rightarrow> (Inl e, st1)
      | (Inr page, st1) \<Rightarrow>
          let norm_poet = normalize_poet_name poet_name in
          (case py_split norm_poet of
             [] \<Rightarrow> (Inl IndexError, st1)
           | main_name_token # _ \<Rightarrow>
               (Inr (poet_works_loop norm_poet main_name_token (content_anchors page) []), st1)))"

section \<open>Step 3: one work, single or multipart\<close>

text \<open>The selectors are tried in order; a found element with empty text is passed over.\<close>

fun try_selectors :: "soup \<Rightarrow> string list \<Rightarrow> ustr option" where
  "try_selectors page [] = None"
| "try_selectors page (selector # rest) =
     (case select_one page selector of
        None \<Rightarrow> try_selectors page rest
      | Some block \<Rightarrow>
          let text = get_text_nl block in
          if text \<noteq> [] then Some text else try_selectors page rest)"

definition extract_poem_text :: "soup \<Rightarrow> ustr" where
  "extract_poem_text page =
     (case try_selectors page [''.poem'', ''#poem'', ''div.mw-content-ltr''] of
        Some text \<Rightarrow> text
      | None \<Rightarrow>
          (case select_one page ''#mw-content-text'' of
             Some content \<Rightarrow> get_text_nl content
           | None \<Rightarrow> soup_text_nl page))"

text \<open>The loop of \<open>get_work_parts\<close>; \<open>parts\<close> is the list built so far.\<close>

fun work_parts_loop :: "ustr \<Rightarrow> ustr \<Rightarrow> anchor list \<Rightarrow> (ustr \<times> ustr) list \<Rightarrow> (ustr \<times> ustr) list" where
  "work_parts_loop norm_poet main_name_token [] parts = parts"
| "work_parts_loop norm_poet main_name_token (a # as) parts =
     (let text = py_strip (get_text a); href = href_or_empty a in
      if \<not> startswith href KK_PREFIX then work_parts_loop norm_poet main_name_token as parts
      else if is_navigation_text text then work_parts_loop norm_poet main_name_token as parts
      else if \<not> py_in (u '' / '') text then work_parts_loop norm_poet main_name_token as parts
      else
        let last_part = last_part_of text in
        if \<not> py_in main_name_token last_part \<and> \<not> py_in norm_poet last_part
          then work_parts_loop norm_poet main_name_token as parts
        else
          let full_url = BASE_URL @ href in
          work_parts_loop norm_poet main_name_token as (parts @ [(text, full_url)]))"

definition get_work_parts :: "web \<Rightarrow> ustr \<Rightarrow> ustr \<Rightarrow> ((ustr \<times> ustr) list \<times> soup) m" where
  "get_work_parts web poet_name work_url st =
     (case get_soup web work_url st of
        (Inl e, st1) \<Rightarrow> (Inl e, st1)
      | (Inr page, st1) \<Rightarrow>
          let norm_poet = normalize_poet_name poet_name in
          (case py_split norm_poet of
             [] \<Rightarrow> (Inl IndexError, st1)
           | main_name_token # _ \<Rightarrow>
               (Inr (work_parts_loop norm_poet main_name_token (content_anchors page) [], page),
                st1)))"

text \<open>
  The loop of \<open>scrape_work\<close> over the parts: each part's page is requested and its text
  extracted, with a pause after each; \<open>acc\<close> is \<open>work_obj["parts"]\<close> so far.
\<close>

fun scrape_parts :: "web \<Rightarrow> (ustr \<times> ustr) list \<Rightarrow> jval list \<Rightarrow> (jval list) m" where
  "scrape_parts web [] acc st = (Inr acc, st)"
| "scrape_parts web ((part_title, part_url) # rest) acc st =
     (case get_soup web part_url st of
        (Inl e, st1) \<Rightarrow> (Inl e, st1)
      | (Inr psoup, st1) \<Rightarrow>
          let content = extract_poem_text psoup;
              acc' = acc @ [JObj [(''title'', JStr part_title), (''content'', JStr content)]]
          in scrape_parts web rest acc' (sleep_polite st1))"

definition scrape_work :: "web \<Rightarrow> ustr \<Rightarrow> ustr \<Rightarrow> ustr \<Rightarrow> jval m" where
  "scrape_work web poet_name work_title work_url st =
     (case get_work_parts web poet_name work_url st of
        (Inl e, st1) \<Rightarrow> (Inl e, st1)
      | (Inr (parts, page), st1) \<Rightarrow>
          if parts \<noteq> [] then
            (case scrape_parts web parts [] st1 of
               (Inl e, st2) \<Rightarrow> (Inl e, st2)
             | (Inr ps, st2) \<Rightarrow>
                 (Inr (JObj [(''title'', JStr work_title), (''type'', JStr (u ''multipart'')),
                             (''parts'', JList ps)]), st2))
          else
            let content = extract_poem_text page in
            (Inr (JObj [(''title'', JStr work_title), (''type'', JStr (u ''single'')),
                        (''content'', JStr content)]), st1))"

section \<open>Step 4: one poet, and the whole run\<close>

text \<open>The loop of \<open>scrape_poet\<close> over the works; \<open>acc\<close> is \<open>poet_data["works"]\<close> so far.\<close>

fun scrape_works :: "web \<Rightarrow> ustr \<Rightarrow> (ustr \<times> ustr) list \<Rightarrow> jval list \<Rightarrow> (jval list) m" where
  "scrape_works web poet_name [] acc st = (Inr acc, st)"
| "scrape_works web poet_name ((title, url) # rest) acc st =
     (case scrape_work web poet_name title url st of
        (Inl e, st1) \<Rightarrow> (Inl e, st1)
      | (Inr work_obj, st1) \<Rightarrow>
          scrape_works web poet_name rest (acc @ [work_obj]) (sleep_polite st1))"

text \<open>\<open>os.path.join(a, b)\<close> for a directory \<open>a\<close> that does not end with a slash.\<close>

definition path_join :: "ustr \<Rightarrow> ustr \<Rightarrow> ustr" where
  "path_join a b = (if startswith b (u ''/'') then b else a @ u ''/'' @ b)"

text \<open>
  Opening the output file can fail (the poet's name is part of the path); \<open>can_open\<close>
  says for which paths it succeeds.
\<close>

definition scrape_poet :: "web \<Rightarrow> (ustr \<Rightarrow> bool) \<Rightarrow> ustr \<Rightarrow> ustr \<Rightarrow> unit m" where
  "scrape_poet web can_open poet_name poet_url st =
     (case get_poet_works web poet_name poet_url st of
        (Inl e, st1) \<Rightarrow> (Inl e, st1)
      | (Inr works_meta, st1) \<Rightarrow>
          (case scrape_works web poet_name works_meta [] st1 of
             (Inl e, st2) \<Rightarrow> (Inl e, st2)
           | (Inr works, st2) \<Rightarrow>
               let poet_data = JObj [(''poet'', JStr poet_name), (''works'', JList works)];
                   out_path = path_join SAVE_DIR (poet_name @ u ''.json'')
               in if can_open out_path
                  then (Inr (), st2\<lparr>files := (files st2)(out_path \<mapsto> poet_data)\<rparr>)
                  else (Inl OSError, st2)))"

fun scrape_poets :: "web \<Rightarrow> (ustr \<Rightarrow> bool) \<Rightarrow> (ustr \<times> ustr) list \<Rightarrow> unit m" where
  "scrape_poets web can_open [] st = (Inr (), st)"
| "scrape_poets web can_open ((poet_name, poet_url) # rest) st =
     (case scrape_poet web can_open poet_name poet_url st of
        (Inl e, st1) \<Rightarrow> (Inl e, st1)
      | (Inr _, st1) \<Rightarrow> scrape_poets web can_open rest (sleep_polite st1))"

definition main :: "web \<Rightarrow> (ustr \<Rightarrow> bool) \<Rightarrow> unit m" where
  "main web can_open st =
     (case get_poet_list web 3140 st of
        (Inl e, st1) \<Rightarrow> (Inl e, st1)
      | (Inr poets, st1) \<Rightarrow> scrape_poets web can_open poets st1)"

section \<open>Reading the loops as filters\<close>

text \<open>
  The three link loops read each anchor the same way: its trimmed text, and its stored
  entry, the text with the site's base URL put before the href.
\<close>

definition anchor_text :: "anchor \<Rightarrow> ustr" where
  "anchor_text a = py_strip (get_text a)"

definition entry :: "anchor \<Rightarrow> ustr \<times> ustr" where
  "entry a = (anchor_text a, BASE_URL @ href_or_empty a)"

text \<open>The anchors that \<open>get_poet_list\<close> does not skip.\<close>

definition poet_accept :: "anchor \<Rightarrow> bool" where
  "poet_accept a =
     (startswith (href_or_empty a) KK_PREFIX \<and> \<not> is_navigation_text (anchor_text a) \<and>
      \<not> (startswith (href_or_empty a) CATEGORY_PREFIX \<or> startswith (href_or_empty a) TALK_PREFIX))"

text \<open>The anchors that \<open>get_poet_works\<close> does not skip.\<close>

definition work_accept :: "ustr \<Rightarrow> ustr \<Rightarrow> anchor \<Rightarrow> bool" where
  "work_accept norm_poet main_name_token a =
     (startswith (href_or_empty a) KK_PREFIX \<and> \<not> is_navigation_text (anchor_text a) \<and>
      py_in (u '' / '') (anchor_text a) \<and>
      (py_in main_name_token (last_part_of (anchor_text a)) \<or>
       py_in norm_poet (last_part_of (anchor_text a))))"

section \<open>The work pattern, in the specification's words\<close>

text \<open>
  The first whitespace-delimited token of a string, and the substring that follows the
  last slash of a text (the whole text when it has no slash).
\<close>

definition first_token :: "ustr \<Rightarrow> ustr" where
  "first_token s = takeWhile (\<lambda>c. \<not> isspace c) (dropWhile isspace s)"

definition after_last_slash :: "ustr \<Rightarrow> ustr" where
  "after_last_slash text = rev (takeWhile (\<lambda>c. c \<noteq> of_char CHR ''/'') (rev text))"

text \<open>
  The normalisation of an owner name: each curly double quote, and each doubled straight
  apostrophe, read from the left, becomes one straight double quote; the result is
  trimmed.
\<close>

fun canonical_quotes :: "ustr \<Rightarrow> ustr" where
  "canonical_quotes [] = []"
| "canonical_quotes [c] = (if c = 8220 \<or> c = 8221 then [34] else [c])"
| "canonical_quotes (c # d # cs) =
     (if c = 8220 \<or> c = 8221 then 34 # canonical_quotes (d # cs)
      else if c = 39 \<and> d = 39 then 34 # canonical_quotes cs
      else c # canonical_quotes (d # cs))"

definition normalizeOwner :: "ustr \<Rightarrow> ustr" where
  "normalizeOwner ownerName = py_strip (canonical_quotes ownerName)"

text \<open>
  A link text matches the work pattern of an owner when it contains the separator
  \<open>" / "\<close> and what follows its last slash, trimmed, contains the first token of the
  normalised owner name or the whole normalised name. For an owner name that is empty or
  all whitespace nothing matches.
\<close>

definition matchesWork :: "ustr \<Rightarrow> ustr \<Rightarrow> bool" where
  "matchesWork text ownerName =
     (if list_all isspace ownerName then False
      else
        let n = normalizeOwner ownerName; tail = py_strip (after_last_slash text)
        in py_in (u '' / '') text \<and> (py_in (first_token n) tail \<or> py_in n tail))"

section \<open>Example pages\<close>

text \<open>
  A fresh world, a page that has only anchors, a site that answers every request with one
  page, and the link texts of the specification's examples: a work of Mahadevi Varma
  (``title / poet''), a bare title, and a work of somebody else.
\<close>

definition st0 :: world where
  "st0 = \<lparr>fetched = [], sleeps = 0, files = Map.empty\<rparr>"

definition page_of_anchors :: "anchor list \<Rightarrow> soup" where
  "page_of_anchors as = \<lparr>content_anchors = as, select_one = (\<lambda>sel. None), soup_text_nl = []\<rparr>"

definition always :: "soup \<Rightarrow> web" where
  "always page = (\<lambda>n url. Some page)"

definition mahadevi_varma :: ustr where
  "mahadevi_varma = [2350, 2361, 2366, 2342, 2375, 2357, 2368, 32, 2357, 2352, 2381, 2350, 2366]"

definition aansu :: ustr where
  "aansu = [2310, 2305, 2360, 2370]"

definition koi_aur :: ustr where
  "koi_aur = [2325, 2379, 2312, 32, 2324, 2352]"

definition link :: "ustr \<Rightarrow> ustr \<Rightarrow> anchor" where
  "link text href = \<lparr>get_text = text, href_attr = Some href\<rparr>"

definition poet_page_anchors :: "anchor list" where
  "poet_page_anchors =
     [link (aansu @ u '' / '' @ mahadevi_varma) (u ''/kk/a1''),
      link aansu (u ''/kk/a2''),
      link (aansu @ u '' / '' @ koi_aur) (u ''/kk/a3'')]"

text \<open>
  A link with the text of a work of Mahadevi Varma that points into the category namespace;
  a page whose main content region exists and is empty while the page has other text; and a
  page with a poem container.
\<close>

definition category_link :: anchor where
  "category_link = link (aansu @ u '' / '' @ mahadevi_varma) (CATEGORY_PREFIX @ u ''X'')"

definition empty_content_page :: soup where
  "empty_content_page =
     \<lparr>content_anchors = [],
      select_one = (\<lambda>sel. if sel = ''#mw-content-text'' then Some (Element []) else None),
      soup_text_nl = u ''menu''\<rparr>"

definition poem_page :: "ustr \<Rightarrow> soup" where
  "poem_page text =
     \<lparr>content_anchors = [],
      select_one = (\<lambda>sel. if sel = ''.poem'' then Some (Element text) else None),
      soup_text_nl = u ''menu'' @ text\<rparr>"

text \<open>
  A poet whose name is written with curly quotes and a link that writes it with straight
  ones; a link whose text has the form of a work but carries an ellipsis, and one whose
  href leaves \<open>/kk/\<close>.
\<close>

definition quoted_ram :: ustr where
  "quoted_ram = [8220] @ u ''Ram'' @ [8221]"

definition straight_ram_title :: ustr where
  "straight_ram_title = u ''X / '' @ [34] @ u ''Ram'' @ [34]"

definition quoted_ram_link :: anchor where
  "quoted_ram_link = link straight_ram_title (u ''/kk/x'')"

definition dotted_link :: anchor where
  "dotted_link = link (u ''A... / Ram'') (u ''/kk/a'')"

definition offsite_link :: anchor where
  "offsite_link = link (u ''B / Ram'') (u ''/wiki/b'')"

section \<open>What a selector yields\<close>

text \<open>The text of the element a selector finds; empty when it finds none.\<close>

definition yields :: "soup \<Rightarrow> string \<Rightarrow> ustr" where
  "yields page selector =
     (case select_one page selector of None \<Rightarrow> [] | Some block \<Rightarrow> get_text_nl block)"

section \<open>Work records\<close>

text \<open>
  The documents \<open>scrape_work\<close> builds, by variant, and the data model's invariant on
  them: a multipart record has a \<open>parts\<close> list that is not empty, a single record has a
  \<open>content\<close> text.
\<close>

definition part_record :: "ustr \<Rightarrow> ustr \<Rightarrow> jval" where
  "part_record title content = JObj [(''title'', JStr title), (''content'', JStr content)]"

definition single_record :: "ustr \<Rightarrow> ustr \<Rightarrow> jval" where
  "single_record title content =
     JObj [(''title'', JStr title), (''type'', JStr (u ''single'')), (''content'', JStr content)]"

definition multipart_record :: "ustr \<Rightarrow> jval list \<Rightarrow> jval" where
  "multipart_record title parts =
     JObj [(''title'', JStr title), (''type'', JStr (u ''multipart'')), (''parts'', JList parts)]"

fun wf_work_record :: "jval \<Rightarrow> bool" where
  "wf_work_record (JObj kvs) =
     (case map_of kvs ''type'' of
        Some (JStr t) \<Rightarrow>
          if t = u ''multipart'' then
            (case map_of kvs ''parts'' of Some (JList ps) \<Rightarrow> ps \<noteq> [] | _ \<Rightarrow> False)
          else if t = u ''single'' then
            (case map_of kvs ''content'' of Some (JStr c) \<Rightarrow> True | _ \<Rightarrow> False)
          else False
      | _ \<Rightarrow> False)"
| "wf_work_record _ = False"

section \<open>An example site\<close>

text \<open>
  An index page with one poet, a category link and a link out of \<open>/kk/\<close>; the poet's
  page with a work in two parts, a single work and a bare title; the pages of the parts
  and of the single work.
\<close>

definition parts_page :: soup where
  "parts_page =
     page_of_anchors
       [link (u ''P1 / '' @ mahadevi_varma) (u ''/kk/p1''),
        link (u ''P2 / '' @ mahadevi_varma) (u ''/kk/p2'')]"

definition index_page :: soup where
  "index_page =
     page_of_anchors
       [link mahadevi_varma (u ''/kk/m''), category_link, link (u ''Elsewhere'') (u ''/wiki/e'')]"

definition poet_page :: soup where
  "poet_page =
     page_of_anchors
       [link (u ''W / '' @ mahadevi_varma) (u ''/kk/w''),
        link (aansu @ u '' / '' @ mahadevi_varma) (u ''/kk/s''),
        link aansu (u ''/kk/a'')]"

definition site :: web where
  "site n url =
     (if url = INDEX_URL then Some index_page
      else if url = BASE_URL @ u ''/kk/m'' then Some poet_page
      else if url = BASE_URL @ u ''/kk/w'' then Some parts_page
      else if url = BASE_URL @ u ''/kk/p1'' then Some (poem_page (u ''one''))
      else if url = BASE_URL @ u ''/kk/p2'' then Some (poem_page (u ''two''))
      else if url = BASE_URL @ u ''/kk/s'' then Some (poem_page (u ''solo''))
      else None)"

text \<open>The same site while the page of the second part cannot be retrieved.\<close>

definition site_down :: web where
  "site_down n url = (if url = BASE_URL @ u ''/kk/p2'' then None else site n url)"

section \<open>Article URLs and owner names\<close>

text \<open>
  A URL under the article prefix of the site, and a name that is not blank: it has a
  character that is not whitespace.
\<close>

definition under_kk :: "ustr \<Rightarrow> bool" where
  "under_kk url = startswith url (u ''https://kavitakosh.org/kk/'')"

definition has_nonspace :: "ustr \<Rightarrow> bool" where
  "has_nonspace s = (\<exists>c\<in>set s. \<not> isspace c)"

section \<open>Facts about the string operations\<close>

text \<open>\<open>startswith\<close> and \<open>in\<close> are the prefix and the substring relation.\<close>

lemma startswith_prefix: "startswith s p \<longleftrightarrow> (\<exists>r. s = p @ r)"
  unfolding startswith_def
  by (metis append_eq_conv_conj append_take_drop_id)

lemma py_in_iff: "py_in sub s \<longleftrightarrow> (\<exists>pre post. s = pre @ sub @ post)"
proof (induction s)
  case Nil
  show ?case by auto
next
  case (Cons c cs)
  show ?case
  proof
    assume "py_in sub (c # cs)"
    then consider "startswith (c # cs) sub" | "py_in sub cs" by auto
    then show "\<exists>pre post. c # cs = pre @ sub @ post"
    proof cases
      case 1
      then obtain r where "c # cs = sub @ r" by (auto simp: startswith_prefix)
      then have "c # cs = [] @ sub @ r" by simp
      then show ?thesis by blast
    next
      case 2
      with Cons.IH obtain pre post where "cs = pre @ sub @ post" by blast
      then have "c # cs = (c # pre) @ sub @ post" by simp
      then show ?thesis by blast
    qed
  next
    assume "\<exists>pre post. c # cs = pre @ sub @ post"
    then obtain pre post where e: "c # cs = pre @ sub @ post" by blast
    show "py_in sub (c # cs)"
    proof (cases pre)
      case Nil
      with e have "startswith (c # cs) sub" by (auto simp: startswith_prefix)
      then show ?thesis by simp
    next
      case (Cons p pre')
      with e have "cs = pre' @ sub @ post" by simp
      with Cons.IH have "py_in sub cs" by blast
      then show ?thesis by simp
    qed
  qed
qed

lemma split_ws_Nil: "split_ws s w = [] \<longleftrightarrow> w = [] \<and> (\<forall>c\<in>set s. isspace c)"
  by (induction s arbitrary: w) auto

lemma split_ws_hd:
  "split_ws s w \<noteq> [] \<Longrightarrow>
   hd (split_ws s w) =
     (if w = [] then first_token s else w @ takeWhile (\<lambda>c. \<not> isspace c) s)"
  by (induction s arbitrary: w) (auto simp: first_token_def)

lemma py_split_first_token: "py_split s = tok # rest \<Longrightarrow> tok = first_token s"
  using split_ws_hd [of s "[]"] by (simp add: py_split_def)

lemma py_strip_Nil: "py_strip s = [] \<longleftrightarrow> (\<forall>c\<in>set s. isspace c)"
proof -
  let ?d = "dropWhile isspace s"
  have "py_strip s = [] \<longleftrightarrow> (\<forall>c\<in>set ?d. isspace c)"
    by (simp add: py_strip_def)
  also have "\<dots> \<longleftrightarrow> (\<forall>c\<in>set s. isspace c)"
  proof
    assume a: "\<forall>c\<in>set ?d. isspace c"
    show "\<forall>c\<in>set s. isspace c"
    proof (rule ccontr)
      assume "\<not> (\<forall>c\<in>set s. isspace c)"
      then have ne: "?d \<noteq> []" by simp
      then have "\<not> isspace (hd ?d)" by (rule hd_dropWhile)
      with a ne show False by (meson hd_in_set)
    qed
  next
    assume "\<forall>c\<in>set s. isspace c"
    then show "\<forall>c\<in>set ?d. isspace c" by (meson set_dropWhileD)
  qed
  finally show ?thesis .
qed

lemma py_strip_allspace: "(\<forall>c\<in>set (py_strip s). isspace c) \<longleftrightarrow> (\<forall>c\<in>set s. isspace c)"
proof
  assume a: "\<forall>c\<in>set (py_strip s). isspace c"
  show "\<forall>c\<in>set s. isspace c"
  proof (rule ccontr)
    assume "\<not> (\<forall>c\<in>set s. isspace c)"
    then have ne: "dropWhile isspace s \<noteq> []" by simp
    then have h: "\<not> isspace (hd (dropWhile isspace s))" by (rule hd_dropWhile)
    let ?d = "dropWhile isspace s"
    have "last (rev ?d) = hd ?d" using ne by (simp add: last_rev)
    then have "\<not> (\<forall>c\<in>set (rev ?d). isspace c)" using ne h by (metis hd_in_set set_rev)
    then have ne2: "dropWhile isspace (rev ?d) \<noteq> []" by simp
    then have "\<not> isspace (hd (dropWhile isspace (rev ?d)))" by (rule hd_dropWhile)
    moreover have "hd (dropWhile isspace (rev ?d)) \<in> set (py_strip s)"
      using ne2 by (simp add: py_strip_def)
    ultimately show False using a by blast
  qed
next
  assume "\<forall>c\<in>set s. isspace c"
  then have "py_strip s = []" by (simp add: py_strip_Nil)
  then show "\<forall>c\<in>set (py_strip s). isspace c" by simp
qed

lemma py_replace_allspace:
  "\<forall>c\<in>set s. isspace c \<Longrightarrow> old \<noteq> [] \<Longrightarrow> \<not> isspace (hd old) \<Longrightarrow> py_replace old new s = s"
proof (induction old new s rule: py_replace.induct)
  case (1 old new)
  then show ?case by simp
next
  case (2 old new c cs)
  from 2 have "\<not> startswith (c # cs) old"
    by (cases old) (auto simp: startswith_def)
  with 2 show ?case by simp
qed

lemma py_replace_nonspace:
  "\<exists>c\<in>set s. \<not> isspace c \<Longrightarrow> \<exists>c\<in>set new. \<not> isspace c \<Longrightarrow>
   \<exists>c\<in>set (py_replace old new s). \<not> isspace c"
proof (induction old new s rule: py_replace.induct)
  case (1 old new)
  then show ?case by simp
next
  case (2 old new c cs)
  show ?case
  proof (cases "startswith (c # cs) old")
    case True
    with 2(4) show ?thesis by auto
  next
    case False
    with 2 show ?thesis by auto
  qed
qed

lemma normalize_no_token:
  "py_split (normalize_poet_name name) = [] \<longleftrightarrow> (\<forall>c\<in>set name. isspace c)"
proof
  assume all: "\<forall>c\<in>set name. isspace c"
  have q: "\<not> isspace 8220" "\<not> isspace 8221" "\<not> isspace 39"
    by (simp_all add: isspace_def)
  have "py_replace [8220] (u [CHR 0x22]) name = name"
    using all q by (simp add: py_replace_allspace)
  moreover have "py_replace [8221] (u [CHR 0x22]) name = name"
    using all q by (simp add: py_replace_allspace)
  moreover have "py_replace (u [CHR 0x27, CHR 0x27]) (u [CHR 0x22]) name = name"
    using all q by (simp add: py_replace_allspace u_def)
  ultimately have "normalize_poet_name name = py_strip name"
    by (simp add: normalize_poet_name_def)
  then show "py_split (normalize_poet_name name) = []"
    using all by (simp add: py_split_def split_ws_Nil py_strip_allspace)
next
  assume e: "py_split (normalize_poet_name name) = []"
  show "\<forall>c\<in>set name. isspace c"
  proof (rule ccontr)
    assume "\<not> (\<forall>c\<in>set name. isspace c)"
    then have n0: "\<exists>c\<in>set name. \<not> isspace c" by blast
    have dq: "\<exists>c\<in>set (u [CHR 0x22]). \<not> isspace c" by (simp add: u_def isspace_def)
    have "\<exists>c\<in>set (py_replace (u [CHR 0x27, CHR 0x27]) (u [CHR 0x22])
       (py_replace [8221] (u [CHR 0x22]) (py_replace [8220] (u [CHR 0x22]) name))). \<not> isspace c"
      by (intro py_replace_nonspace n0 dq)
    then have "\<not> (\<forall>c\<in>set (normalize_poet_name name). isspace c)"
      by (simp add: normalize_poet_name_def py_strip_allspace)
    with e show False by (simp add: py_split_def split_ws_Nil)
  qed
qed

text \<open>
  The three replacements of \<open>normalize_poet_name\<close>, made one after the other, give what
  one pass over the name gives.
\<close>

lemma py_replace_char:
  "py_replace [x] [y] s = map (\<lambda>c. if c = x then y else c) s"
  by (induction s) (auto simp: startswith_def)

lemma py_replace_apostrophes:
  "py_replace [39, 39] [34] (map (\<lambda>c. if c = 8220 \<or> c = 8221 then 34 else c) s) =
     canonical_quotes s"
  by (induction s rule: canonical_quotes.induct) (auto simp: startswith_def)

lemma normalize_poet_name_spec: "normalize_poet_name name = normalizeOwner name"
proof -
  have "py_replace [8221] [34] (py_replace [8220] [34] name) =
        map (\<lambda>c. if c = 8220 \<or> c = 8221 then 34 else c) name"
    by (simp add: py_replace_char)
  then show ?thesis
    by (simp add: normalize_poet_name_def normalizeOwner_def u_def py_replace_apostrophes)
qed

lemma split_on_not_Nil: "split_on sep s w \<noteq> []"
  by (induction s arbitrary: w) auto

lemma last_split_on:
  "last (split_on sep s w) =
     (if sep \<in> set s then rev (takeWhile (\<lambda>c. c \<noteq> sep) (rev s)) else w @ s)"
  by (induction s arbitrary: w) (auto simp: takeWhile_append split_on_not_Nil)

lemma last_part_of_after_last_slash: "last_part_of text = py_strip (after_last_slash text)"
proof (cases "of_char CHR ''/'' \<in> set text")
  case True
  then show ?thesis
    by (simp add: last_part_of_def py_split_sep_def after_last_slash_def last_split_on)
next
  case False
  then have tw: "takeWhile (\<lambda>c. c \<noteq> of_char CHR ''/'') (rev text) = rev text"
    by auto
  show ?thesis
    unfolding last_part_of_def py_split_sep_def after_last_slash_def last_split_on tw
    using False by simp
qed

text \<open>The definitions a concrete run unfolds.\<close>

lemmas str_defs = u_def isspace_def py_strip_def startswith_def py_split_def py_split_sep_def
  normalize_poet_name_def last_part_of_def is_navigation_text_def SKIP_LINK_WORDS_def
  LANG_WORDS_def href_or_empty_def KK_PREFIX_def CATEGORY_PREFIX_def TALK_PREFIX_def
  BASE_URL_def anchor_text_def entry_def first_token_def after_last_slash_def matchesWork_def normalizeOwner_def

lemmas ex_defs = st0_def page_of_anchors_def always_def mahadevi_varma_def aansu_def koi_aur_def
  link_def poet_page_anchors_def category_link_def quoted_ram_def quoted_ram_link_def
  dotted_link_def offsite_link_def

section \<open>The loops\<close>

lemma poet_works_loop_filter:
  "poet_works_loop n t as acc = acc @ map entry (filter (work_accept n t) as)"
  by (induction as arbitrary: acc)
     (auto simp: Let_def work_accept_def entry_def anchor_text_def)

lemma work_parts_loop_filter:
  "work_parts_loop n t as acc = acc @ map entry (filter (work_accept n t) as)"
  by (induction as arbitrary: acc)
     (auto simp: Let_def work_accept_def entry_def anchor_text_def)

text \<open>
  The index loop keeps the accepted anchors up to the limit; as the limit is tested only
  after an append, at least one is kept when there is one.
\<close>

lemma poet_list_loop_filter:
  "poet_list_loop limit as acc =
     acc @ take (nat (max 1 (limit - int (length acc)))) (map entry (filter poet_accept as))"
proof (induction as arbitrary: acc)
  case Nil
  show ?case by simp
next
  case (Cons a as)
  show ?case
  proof (cases "poet_accept a")
    case False
    then show ?thesis
      using Cons.IH [of acc]
      by (auto simp: Let_def poet_accept_def anchor_text_def)
  next
    case True
    show ?thesis
    proof (cases "int (length acc) + 1 \<ge> limit")
      case stop: True
      then have "nat (max 1 (limit - int (length acc))) = 1" by simp
      with True stop show ?thesis
        by (simp add: Let_def poet_accept_def anchor_text_def entry_def)
    next
      case go: False
      let ?rest = "map entry (filter poet_accept as)"
      from go obtain k where k: "nat (max 1 (limit - int (length acc))) = Suc k"
        and k': "nat (max 1 (limit - int (length (acc @ [entry a])))) = k"
        by (cases "nat (max 1 (limit - int (length acc)))") auto
      from True go have "poet_list_loop limit (a # as) acc = poet_list_loop limit as (acc @ [entry a])"
        by (simp add: Let_def poet_accept_def anchor_text_def entry_def)
      also have "\<dots> = (acc @ [entry a]) @ take k ?rest"
        using Cons.IH [of "acc @ [entry a]"] k' by simp
      also have "\<dots> = acc @ take (Suc k) (entry a # ?rest)"
        by simp
      finally show ?thesis
        using True k by simp
    qed
  qed
qed

section \<open>Part detection and work discovery\<close>

text \<open>
  C9. The heuristic that finds the parts of a work on the work's page is the heuristic that
  finds the works of a poet on the poet's page: the two loops return the same list for
  every owner name, token, list of anchors and starting list, so an anchor is taken as a
  part exactly when it would be taken as a work; and on the same request the two functions
  fail alike or return the same list of titles and URLs.
\<close>

theorem get_work_parts_same_heuristic:
  "work_parts_loop norm_poet main_name_token as acc =
     poet_works_loop norm_poet main_name_token as acc \<and>
   get_poet_works web poet_name url st =
     (case get_work_parts web poet_name url st of
        (Inl e, st1) \<Rightarrow> (Inl e, st1)
      | (Inr (parts, page), st1) \<Rightarrow> (Inr parts, st1))"
  by (simp add: get_poet_works_def get_work_parts_def poet_works_loop_filter
      work_parts_loop_filter Let_def split: prod.splits sum.splits list.splits)

section \<open>Fetching\<close>

lemma get_soup_fst:
  "fst (get_soup web url st) =
     (case web (length (fetched st)) url of None \<Rightarrow> Inl RetrievalError | Some page \<Rightarrow> Inr page)"
  by (simp add: get_soup_def Let_def split: option.splits)

lemma get_soup_fetched: "fetched (snd (get_soup web url st)) = fetched st @ [url]"
  by (simp add: get_soup_def Let_def split: option.splits)

section \<open>What a run fetches, and how it can fail\<close>

text \<open>
  Every entry the link loops collect comes from an anchor whose href is under \<open>/kk/\<close>;
  the fetch log of each step grows by URLs under the article prefix only; and no step
  raises \<open>IndexError\<close> for an owner name that is not blank.
\<close>

lemma under_kk_base: "startswith href KK_PREFIX \<Longrightarrow> under_kk (BASE_URL @ href)"
  by (auto simp: under_kk_def startswith_prefix BASE_URL_def KK_PREFIX_def u_def)

lemma under_kk_index: "under_kk INDEX_URL"
  by (simp add: under_kk_def INDEX_URL_def BASE_URL_def startswith_def u_def)

lemma works_under_kk:
  "e \<in> set (poet_works_loop n t as []) \<Longrightarrow>
   \<exists>a\<in>set as. e = entry a \<and> startswith (href_or_empty a) KK_PREFIX"
  by (auto simp: poet_works_loop_filter work_accept_def)

lemma parts_under_kk:
  "e \<in> set (work_parts_loop n t as []) \<Longrightarrow>
   \<exists>a\<in>set as. e = entry a \<and> startswith (href_or_empty a) KK_PREFIX"
  by (auto simp: work_parts_loop_filter work_accept_def)

lemma poets_accepted:
  "e \<in> set (poet_list_loop limit as []) \<Longrightarrow> \<exists>a\<in>set as. e = entry a \<and> poet_accept a"
proof -
  assume "e \<in> set (poet_list_loop limit as [])"
  then have "e \<in> set (map entry (filter poet_accept as))"
    unfolding poet_list_loop_filter by (auto dest: in_set_takeD)
  then show ?thesis by auto
qed

lemma poets_under_kk:
  "e \<in> set (poet_list_loop limit as []) \<Longrightarrow>
   \<exists>a\<in>set as. e = entry a \<and> startswith (href_or_empty a) KK_PREFIX"
  by (drule poets_accepted) (auto simp: poet_accept_def)

lemma entry_under_kk: "startswith (href_or_empty a) KK_PREFIX \<Longrightarrow> under_kk (snd (entry a))"
  by (simp add: entry_def under_kk_base)

lemma get_work_parts_fetched:
  "fetched (snd (get_work_parts web poet_name url st)) = fetched st @ [url]"
  by (simp add: get_work_parts_def get_soup_def Let_def split: option.splits list.splits)

lemma get_poet_works_fetched:
  "fetched (snd (get_poet_works web poet_name url st)) = fetched st @ [url]"
  by (simp add: get_poet_works_def get_soup_def Let_def split: option.splits list.splits)

lemma get_poet_list_fetched:
  "fetched (snd (get_poet_list web limit st)) = fetched st @ [INDEX_URL]"
  by (simp add: get_poet_list_def get_soup_def Let_def split: option.splits)

lemma get_work_parts_result:
  "get_work_parts web poet_name url st = (Inr (parts, page), st1) \<Longrightarrow>
   \<forall>e\<in>set parts. under_kk (snd e)"
  by (auto simp: get_work_parts_def get_soup_def Let_def entry_under_kk
      split: option.splits list.splits dest!: parts_under_kk)

lemma get_poet_works_result:
  "get_poet_works web poet_name url st = (Inr works, st1) \<Longrightarrow>
   \<forall>e\<in>set works. under_kk (snd e)"
  by (auto simp: get_poet_works_def get_soup_def Let_def entry_under_kk
      split: option.splits list.splits dest!: works_under_kk)

lemma get_poet_list_result:
  "get_poet_list web limit st = (Inr poets, st1) \<Longrightarrow>
   \<forall>e\<in>set poets. under_kk (snd e) \<and> has_nonspace (fst e)"
proof
  fix e
  assume g: "get_poet_list web limit st = (Inr poets, st1)" and e: "e \<in> set poets"
  from g obtain page :: soup where "poets = poet_list_loop limit (content_anchors page) []"
    by (auto simp: get_poet_list_def get_soup_def Let_def split: option.splits)
  with e obtain a where a: "e = entry a" "poet_accept a"
    by (auto dest: poets_accepted)
  then have k: "under_kk (snd e)" by (simp add: entry_under_kk poet_accept_def)
  from a have "anchor_text a \<noteq> []" by (auto simp: poet_accept_def is_navigation_text_def)
  then have "\<not> (\<forall>c\<in>set (get_text a). isspace c)"
    by (simp add: anchor_text_def py_strip_Nil)
  then have "\<not> (\<forall>c\<in>set (py_strip (get_text a)). isspace c)"
    by (simp add: py_strip_allspace)
  then have "has_nonspace (fst e)"
    by (simp add: a entry_def anchor_text_def has_nonspace_def)
  with k show "under_kk (snd e) \<and> has_nonspace (fst e)" by blast
qed

lemma scrape_parts_fetched:
  "\<forall>e\<in>set parts. under_kk (snd e) \<Longrightarrow> list_all under_kk (fetched st) \<Longrightarrow>
   list_all under_kk (fetched (snd (scrape_parts web parts acc st)))"
proof (induction parts arbitrary: acc st)
  case Nil
  then show ?case by simp
next
  case (Cons part parts)
  obtain title url where part: "part = (title, url)" by (cases part)
  show ?case
  proof (cases "web (length (fetched st)) url")
    case None
    with Cons.prems show ?thesis by (simp add: part get_soup_def)
  next
    case (Some page)
    let ?st1 = "sleep_polite (st\<lparr>fetched := fetched st @ [url]\<rparr>)"
    from Cons.prems have "list_all under_kk (fetched ?st1)"
      by (simp add: part sleep_polite_def)
    with Cons.IH [of ?st1] Cons.prems(1) Some show ?thesis
      by (simp add: part get_soup_def Let_def)
  qed
qed

lemma scrape_parts_no_index_error: "fst (scrape_parts web parts acc st) \<noteq> Inl IndexError"
proof (induction parts arbitrary: acc st)
  case Nil
  show ?case by simp
next
  case (Cons part parts)
  obtain title url where part: "part = (title, url)" by (cases part)
  show ?case
    using Cons.IH
    by (cases "web (length (fetched st)) url") (simp_all add: part get_soup_def Let_def)
qed

lemma get_work_parts_no_index_error:
  "has_nonspace poet_name \<Longrightarrow> fst (get_work_parts web poet_name url st) \<noteq> Inl IndexError"
  using normalize_no_token [of poet_name]
  by (auto simp: get_work_parts_def get_soup_def Let_def has_nonspace_def
      split: option.splits list.splits)

lemma get_poet_works_no_index_error:
  "has_nonspace poet_name \<Longrightarrow> fst (get_poet_works web poet_name url st) \<noteq> Inl IndexError"
  using normalize_no_token [of poet_name]
  by (auto simp: get_poet_works_def get_soup_def Let_def has_nonspace_def
      split: option.splits list.splits)

lemma scrape_work_fetched:
  assumes "under_kk url" and "list_all under_kk (fetched st)"
  shows "list_all under_kk (fetched (snd (scrape_work web poet_name title url st)))"
proof (cases "get_work_parts web poet_name url st")
  case (Pair r st1)
  from assms have st1: "list_all under_kk (fetched st1)"
    using get_work_parts_fetched [of web poet_name url st] Pair by simp
  show ?thesis
  proof (cases r)
    case (Inl e)
    with Pair st1 show ?thesis by (simp add: scrape_work_def)
  next
    case (Inr pp)
    obtain parts page where pp: "pp = (parts, page)" by (cases pp)
    from Pair Inr pp have "\<forall>e\<in>set parts. under_kk (snd e)"
      by (auto dest: get_work_parts_result)
    then have "list_all under_kk (fetched (snd (scrape_parts web parts [] st1)))"
      using st1 by (rule scrape_parts_fetched)
    with Pair Inr pp st1 show ?thesis
      by (auto simp: scrape_work_def Let_def split: prod.splits sum.splits)
  qed
qed

lemma scrape_work_no_index_error:
  assumes "has_nonspace poet_name"
  shows "fst (scrape_work web poet_name title url st) \<noteq> Inl IndexError"
proof (cases "get_work_parts web poet_name url st")
  case (Pair r st1)
  show ?thesis
  proof (cases r)
    case (Inl e)
    with Pair get_work_parts_no_index_error [OF assms, of web url st] show ?thesis
      by (simp add: scrape_work_def)
  next
    case (Inr pp)
    obtain parts page where pp: "pp = (parts, page)" by (cases pp)
    from Pair Inr pp scrape_parts_no_index_error [of web parts "[]" st1] show ?thesis
      by (auto simp: scrape_work_def Let_def split: prod.splits sum.splits)
  qed
qed

lemma scrape_works_fetched:
  "\<forall>e\<in>set works. under_kk (snd e) \<Longrightarrow> list_all under_kk (fetched st) \<Longrightarrow>
   list_all under_kk (fetched (snd (scrape_works web poet_name works acc st)))"
proof (induction works arbitrary: acc st)
  case Nil
  then show ?case by simp
next
  case (Cons w works)
  obtain title url where w: "w = (title, url)" by (cases w)
  from Cons.prems have 1: "list_all under_kk (fetched (snd (scrape_work web poet_name title url st)))"
    by (intro scrape_work_fetched) (simp_all add: w)
  obtain r st1 where sw: "scrape_work web poet_name title url st = (r, st1)"
    by (cases "scrape_work web poet_name title url st")
  with 1 have st1: "list_all under_kk (fetched (sleep_polite st1))"
    by (simp add: sleep_polite_def)
  show ?case
  proof (cases r)
    case (Inl e)
    with sw 1 show ?thesis by (simp add: w)
  next
    case (Inr work_obj)
    with sw Cons.IH [OF _ st1] Cons.prems(1) show ?thesis by (simp add: w)
  qed
qed

lemma scrape_works_no_index_error:
  "has_nonspace poet_name \<Longrightarrow> fst (scrape_works web poet_name works acc st) \<noteq> Inl IndexError"
proof (induction works arbitrary: acc st)
  case Nil
  show ?case by simp
next
  case (Cons w works)
  obtain title url where w: "w = (title, url)" by (cases w)
  obtain r st1 where sw: "scrape_work web poet_name title url st = (r, st1)"
    by (cases "scrape_work web poet_name title url st")
  with scrape_work_no_index_error [OF Cons.prems, of web title url st]
  have "r \<noteq> Inl IndexError" by simp
  with sw Cons.IH [OF Cons.prems] show ?case
    by (cases r) (simp_all add: w)
qed

lemma scrape_poet_fetched:
  assumes "under_kk poet_url" and "list_all under_kk (fetched st)"
  shows "list_all under_kk (fetched (snd (scrape_poet web can_open poet_name poet_url st)))"
proof (cases "get_poet_works web poet_name poet_url st")
  case (Pair r st1)
  from assms have st1: "list_all under_kk (fetched st1)"
    using get_poet_works_fetched [of web poet_name poet_url st] Pair by simp
  show ?thesis
  proof (cases r)
    case (Inl e)
    with Pair st1 show ?thesis by (simp add: scrape_poet_def)
  next
    case (Inr works_meta)
    with Pair have "\<forall>e\<in>set works_meta. under_kk (snd e)"
      by (auto dest: get_poet_works_result)
    then have "list_all under_kk (fetched (snd (scrape_works web poet_name works_meta [] st1)))"
      using st1 by (rule scrape_works_fetched)
    with Pair Inr show ?thesis
      by (auto simp: scrape_poet_def Let_def split: prod.splits sum.splits)
  qed
qed

lemma scrape_poet_no_index_error:
  assumes "has_nonspace poet_name"
  shows "fst (scrape_poet web can_open poet_name poet_url st) \<noteq> Inl IndexError"
proof (cases "get_poet_works web poet_name poet_url st")
  case (Pair r st1)
  show ?thesis
  proof (cases r)
    case (Inl e)
    with Pair get_poet_works_no_index_error [OF assms, of web poet_url st] show ?thesis
      by (simp add: scrape_poet_def)
  next
    case (Inr works_meta)
    with Pair scrape_works_no_index_error [OF assms, of web works_meta "[]" st1] show ?thesis
      by (auto simp: scrape_poet_def Let_def split: prod.splits sum.splits)
  qed
qed

lemma scrape_poets_fetched:
  "\<forall>e\<in>set poets. under_kk (snd e) \<Longrightarrow> list_all under_kk (fetched st) \<Longrightarrow>
   list_all under_kk (fetched (snd (scrape_poets web can_open poets st)))"
proof (induction poets arbitrary: st)
  case Nil
  then show ?case by simp
next
  case (Cons p poets)
  obtain poet_name poet_url where p: "p = (poet_name, poet_url)" by (cases p)
  from Cons.prems
  have 1: "list_all under_kk (fetched (snd (scrape_poet web can_open poet_name poet_url st)))"
    by (intro scrape_poet_fetched) (simp_all add: p)
  obtain r st1 where sp: "scrape_poet web can_open poet_name poet_url st = (r, st1)"
    by (cases "scrape_poet web can_open poet_name poet_url st")
  with 1 have st1: "list_all under_kk (fetched (sleep_polite st1))"
    by (simp add: sleep_polite_def)
  show ?case
  proof (cases r)
    case (Inl e)
    with sp 1 show ?thesis by (simp add: p)
  next
    case (Inr x)
    with sp Cons.IH [OF _ st1] Cons.prems(1) show ?thesis by (simp add: p)
  qed
qed

lemma scrape_poets_no_index_error:
  "\<forall>e\<in>set poets. has_nonspace (fst e) \<Longrightarrow>
   fst (scrape_poets web can_open poets st) \<noteq> Inl IndexError"
proof (induction poets arbitrary: st)
  case Nil
  show ?case by simp
next
  case (Cons p poets)
  obtain poet_name poet_url where p: "p = (poet_name, poet_url)" by (cases p)
  obtain r st1 where sp: "scrape_poet web can_open poet_name poet_url st = (r, st1)"
    by (cases "scrape_poet web can_open poet_name poet_url st")
  from Cons.prems have "has_nonspace poet_name" by (simp add: p)
  from scrape_poet_no_index_error [OF this, of web can_open poet_url st] sp
  have "r \<noteq> Inl IndexError" by simp
  with sp Cons.IH Cons.prems show ?case
    by (cases r) (simp_all add: p)
qed

lemma main_fetched:
  assumes "list_all under_kk (fetched st)"
  shows "list_all under_kk (fetched (snd (main web can_open st)))"
proof (cases "get_poet_list web 3140 st")
  case (Pair r st1)
  from assms have st1: "list_all under_kk (fetched st1)"
    using get_poet_list_fetched [of web 3140 st] Pair by (simp add: under_kk_index)
  show ?thesis
  proof (cases r)
    case (Inl e)
    with Pair st1 show ?thesis by (simp add: main_def)
  next
    case (Inr poets)
    with Pair have "\<forall>e\<in>set poets. under_kk (snd e)"
      by (auto dest: get_poet_list_result)
    then have "list_all under_kk (fetched (snd (scrape_poets web can_open poets st1)))"
      using st1 by (rule scrape_poets_fetched)
    with Pair Inr show ?thesis by (simp add: main_def)
  qed
qed

lemma main_no_index_error: "fst (main web can_open st) \<noteq> Inl IndexError"
proof (cases "get_poet_list web 3140 st")
  case (Pair r st1)
  show ?thesis
  proof (cases r)
    case (Inl e)
    with Pair show ?thesis
      by (auto simp: main_def get_poet_list_def get_soup_def Let_def split: option.splits)
  next
    case (Inr poets)
    with Pair have "\<forall>e\<in>set poets. has_nonspace (fst e)"
      by (auto dest: get_poet_list_result)
    then have "fst (scrape_poets web can_open poets st1) \<noteq> Inl IndexError"
      by (rule scrape_poets_no_index_error)
    with Pair Inr show ?thesis by (simp add: main_def)
  qed
qed

section \<open>A run on the example site\<close>

lemmas site_defs = site_def index_page_def poet_page_def parts_page_def poem_page_def
  INDEX_URL_def

lemma main_run:
  "fetched (snd (main site (\<lambda>path. True) st0)) =
     [INDEX_URL, BASE_URL @ u ''/kk/m'', BASE_URL @ u ''/kk/w'', BASE_URL @ u ''/kk/p1'',
      BASE_URL @ u ''/kk/p2'', BASE_URL @ u ''/kk/s'']"
  by (simp add: main_def get_poet_list_def scrape_poet_def get_poet_works_def scrape_work_def
      get_work_parts_def get_soup_def Let_def sleep_polite_def path_join_def SAVE_DIR_def
      str_defs ex_defs site_defs extract_poem_text_def)

lemma main_result: "fst (main site (\<lambda>path. True) st0) = Inr ()"
  by (simp add: main_def get_poet_list_def scrape_poet_def get_poet_works_def scrape_work_def
      get_work_parts_def get_soup_def Let_def sleep_polite_def path_join_def SAVE_DIR_def
      str_defs ex_defs site_defs extract_poem_text_def)

section \<open>The work pattern\<close>

text \<open>
  C1, as the code has it. For an owner name that is empty or all whitespace, neither
  \<open>get_poet_works\<close> nor \<open>get_work_parts\<close> answers ``no match'': once the page has
  been fetched, \<open>norm_poet.split()[0]\<close> raises \<open>IndexError\<close>, whatever the page and its
  link texts are (and a failed fetch raises before that). A run of the program never
  meets the case: the names \<open>get_poet_list\<close> yields are trimmed and not empty, so \<open>main\<close>
  never ends in an \<open>IndexError\<close>.
\<close>

theorem blank_owner_raises:
  "((\<forall>c\<in>set poet_name. isspace c) \<longrightarrow>
      fst (get_poet_works web poet_name url st) =
        (case web (length (fetched st)) url of
           None \<Rightarrow> Inl RetrievalError | Some page \<Rightarrow> Inl IndexError) \<and>
      fst (get_work_parts web poet_name url st) =
        (case web (length (fetched st)) url of
           None \<Rightarrow> Inl RetrievalError | Some page \<Rightarrow> Inl IndexError)) \<and>
   fst (main web' can_open st') \<noteq> Inl IndexError"
proof -
  have "fst (get_poet_works web poet_name url st) =
        (case web (length (fetched st)) url of
           None \<Rightarrow> Inl RetrievalError | Some page \<Rightarrow> Inl IndexError) \<and>
      fst (get_work_parts web poet_name url st) =
        (case web (length (fetched st)) url of
           None \<Rightarrow> Inl RetrievalError | Some page \<Rightarrow> Inl IndexError)"
    if "\<forall>c\<in>set poet_name. isspace c"
  proof -
    from that have "py_split (normalize_poet_name poet_name) = []"
      by (simp add: normalize_no_token)
    then show ?thesis
      by (simp add: get_poet_works_def get_work_parts_def get_soup_def Let_def
          split: option.splits)
  qed
  with main_no_index_error [of web' can_open st'] show ?thesis by blast
qed

theorem blank_owner_raises_witness:
  "fst (get_poet_works (always (page_of_anchors poet_page_anchors)) (u '' '') (u ''x'') st0) =
     Inl IndexError \<and>
   fst (get_work_parts (always (page_of_anchors poet_page_anchors)) (u '' '') (u ''x'') st0) =
     Inl IndexError \<and>
   fst (main site (\<lambda>path. True) st0) \<noteq> Inl IndexError \<and>
   fst (main site (\<lambda>path. True) st0) = Inr ()"
proof -
  have h: "\<forall>c\<in>set (u '' ''). isspace c" by (simp add: u_def isspace_def)
  have w: "always (page_of_anchors poet_page_anchors) (length (fetched st0)) (u ''x'') =
           Some (page_of_anchors poet_page_anchors)"
    by (simp add: always_def)
  from blank_owner_raises
    [where poet_name = "u '' ''" and web = "always (page_of_anchors poet_page_anchors)"
       and url = "u ''x''" and st = st0 and web' = site and can_open = "\<lambda>path. True"
       and st' = st0] h
  show ?thesis unfolding w using main_result by simp
qed

text \<open>
  C1 as stated fails: with the empty owner name the result is an \<open>IndexError\<close>, not an
  empty list of matches.
\<close>

theorem empty_owner_counterexample:
  "fst (get_poet_works (always (page_of_anchors poet_page_anchors)) [] (u ''x'') st0) =
     Inl IndexError \<and>
   fst (get_poet_works (always (page_of_anchors poet_page_anchors)) [] (u ''x'') st0) \<noteq> Inr []"
  by (simp add: get_poet_works_def get_soup_def always_def Let_def str_defs)

text \<open>
  C5, as the code has it. For a non-empty owner name (one with a character that is not
  whitespace; the blank names are the case of C1) and a link that reaches the pattern
  test (href under \<open>/kk/\<close>, trimmed text not navigation text), the link is accepted as
  a work of that owner if and only if its text matches the work pattern in the
  specification's words: it contains \<open>" / "\<close>, and what follows its last slash, trimmed,
  contains the first token of the normalised owner name or the whole normalised name,
  where normalising turns curly double quotes and doubled straight apostrophes into a
  straight double quote and trims. So the works \<open>get_poet_works\<close> returns are, in page
  order, the links that reach the test and match.
\<close>

theorem work_pattern_match:
  assumes "\<exists>c\<in>set poet_name. \<not> isspace c"
  shows "fst (get_poet_works web poet_name url st) =
     (case web (length (fetched st)) url of
        None \<Rightarrow> Inl RetrievalError
      | Some page \<Rightarrow>
          Inr (map entry
            (filter (\<lambda>a. startswith (href_or_empty a) KK_PREFIX \<and>
                         \<not> is_navigation_text (anchor_text a) \<and>
                         matchesWork (anchor_text a) poet_name)
               (content_anchors page))))"
proof (cases "py_split (normalize_poet_name poet_name)")
  case Nil
  with assms show ?thesis by (simp add: normalize_no_token)
next
  case (Cons tok rest)
  then have tok: "tok = first_token (normalizeOwner poet_name)"
    using py_split_first_token [of "normalize_poet_name poet_name" tok rest]
    by (simp add: normalize_poet_name_spec)
  from assms have owner: "\<not> list_all isspace poet_name"
    by (simp add: list_all_iff)
  have "work_accept (normalize_poet_name poet_name) tok =
        (\<lambda>a. startswith (href_or_empty a) KK_PREFIX \<and> \<not> is_navigation_text (anchor_text a) \<and>
             matchesWork (anchor_text a) poet_name)"
    by (auto simp: work_accept_def matchesWork_def Let_def tok owner
        last_part_of_after_last_slash normalize_poet_name_spec fun_eq_iff)
  with Cons show ?thesis
    by (simp add: get_poet_works_def get_soup_def Let_def poet_works_loop_filter
        split: option.splits)
qed

theorem work_pattern_match_witness:
  "fst (get_poet_works (always (page_of_anchors poet_page_anchors)) mahadevi_varma (u ''x'') st0) =
     Inr [(aansu @ u '' / '' @ mahadevi_varma, BASE_URL @ u ''/kk/a1'')] \<and>
   fst (get_poet_works (always (page_of_anchors [quoted_ram_link])) quoted_ram (u ''x'') st0) =
     Inr [(straight_ram_title, BASE_URL @ u ''/kk/x'')]"
proof -
  have h: "\<exists>c\<in>set mahadevi_varma. \<not> isspace c"
    by (simp add: mahadevi_varma_def isspace_def)
  have m: "matchesWork (aansu @ u '' / '' @ mahadevi_varma) mahadevi_varma"
          "\<not> matchesWork aansu mahadevi_varma"
          "\<not> matchesWork (aansu @ u '' / '' @ koi_aur) mahadevi_varma"
    by (simp_all add: str_defs ex_defs)
  have n: "\<not> is_navigation_text (aansu @ u '' / '' @ mahadevi_varma)"
    by (simp add: str_defs ex_defs)
  have s: "py_strip (aansu @ u '' / '' @ mahadevi_varma) = aansu @ u '' / '' @ mahadevi_varma"
       "py_strip aansu = aansu" "py_strip (aansu @ u '' / '' @ koi_aur) = aansu @ u '' / '' @ koi_aur"
    by (simp_all add: str_defs ex_defs)
  have k: "startswith (u ''/kk/a1'') KK_PREFIX" by (simp add: str_defs)
  from work_pattern_match
    [OF h, where web = "always (page_of_anchors poet_page_anchors)" and url = "u ''x''" and st = st0]
  have 1: "fst (get_poet_works (always (page_of_anchors poet_page_anchors)) mahadevi_varma
             (u ''x'') st0) =
     Inr [(aansu @ u '' / '' @ mahadevi_varma, BASE_URL @ u ''/kk/a1'')]"
    by (simp add: always_def page_of_anchors_def poet_page_anchors_def link_def anchor_text_def
        entry_def href_or_empty_def m n s k)
  have hq: "\<exists>c\<in>set quoted_ram. \<not> isspace c"
    by (simp add: quoted_ram_def isspace_def)
  have mq: "matchesWork straight_ram_title quoted_ram"
    by (simp add: str_defs ex_defs straight_ram_title_def)
  have nq: "\<not> is_navigation_text straight_ram_title"
    by (simp add: str_defs straight_ram_title_def)
  have sq: "py_strip straight_ram_title = straight_ram_title"
    by (simp add: str_defs straight_ram_title_def)
  have kq: "startswith (u ''/kk/x'') KK_PREFIX" by (simp add: str_defs)
  from work_pattern_match
    [OF hq, where web = "always (page_of_anchors [quoted_ram_link])" and url = "u ''x''"
       and st = st0]
  have 2: "fst (get_poet_works (always (page_of_anchors [quoted_ram_link])) quoted_ram
             (u ''x'') st0) =
     Inr [(straight_ram_title, BASE_URL @ u ''/kk/x'')]"
    by (simp add: always_def page_of_anchors_def quoted_ram_link_def link_def anchor_text_def
        entry_def href_or_empty_def mq nq sq kq)
  from 1 2 show ?thesis by blast
qed

text \<open>
  C5 as stated fails for links that do not reach the pattern test: a text with an
  ellipsis is navigation text, and an href outside \<open>/kk/\<close> is skipped first. Both links
  here match the work pattern of the owner, and neither is accepted.
\<close>

theorem pattern_test_counterexample:
  "matchesWork (py_strip (get_text dotted_link)) (u ''Ram'') \<and>
   matchesWork (py_strip (get_text offsite_link)) (u ''Ram'') \<and>
   fst (get_poet_works (always (page_of_anchors [dotted_link, offsite_link])) (u ''Ram'')
          (u ''x'') st0) = Inr []"
  by (simp add: get_poet_works_def get_soup_def Let_def str_defs ex_defs)

section \<open>Category and talk pages\<close>

text \<open>
  C2, as the code has it. \<open>is_navigation_text\<close> reads the link text only; the test of the
  category and talk namespaces is a step of \<open>get_poet_list\<close>. There an anchor whose href
  starts with either prefix is skipped whatever its text is, and the list of poets is the
  one the page gives with all such anchors removed.
\<close>

theorem poet_list_skips_namespaces:
  "(startswith (href_or_empty a) CATEGORY_PREFIX \<or> startswith (href_or_empty a) TALK_PREFIX
      \<longrightarrow> poet_list_loop limit (a # as) poets = poet_list_loop limit as poets) \<and>
   poet_list_loop limit as poets =
     poet_list_loop limit
       (filter (\<lambda>a. \<not> (startswith (href_or_empty a) CATEGORY_PREFIX \<or>
                        startswith (href_or_empty a) TALK_PREFIX)) as) poets"
proof -
  have "filter poet_accept
          (filter (\<lambda>a. \<not> (startswith (href_or_empty a) CATEGORY_PREFIX \<or>
                           startswith (href_or_empty a) TALK_PREFIX)) as) =
        filter poet_accept as"
    by (induction as) (auto simp: poet_accept_def)
  then have "poet_list_loop limit as poets =
     poet_list_loop limit
       (filter (\<lambda>a. \<not> (startswith (href_or_empty a) CATEGORY_PREFIX \<or>
                        startswith (href_or_empty a) TALK_PREFIX)) as) poets"
    by (simp add: poet_list_loop_filter)
  moreover have "startswith (href_or_empty a) CATEGORY_PREFIX \<or>
      startswith (href_or_empty a) TALK_PREFIX
      \<longrightarrow> poet_list_loop limit (a # as) poets = poet_list_loop limit as poets"
    by (simp add: Let_def)
  ultimately show ?thesis by blast
qed

theorem poet_list_skips_namespaces_witness:
  "poet_list_loop 5 [category_link, link mahadevi_varma (u ''/kk/m'')] [] =
     [(mahadevi_varma, BASE_URL @ u ''/kk/m'')]"
proof -
  have h: "startswith (href_or_empty category_link) CATEGORY_PREFIX"
    by (simp add: category_link_def link_def href_or_empty_def startswith_def)
  have "poet_list_loop 5 [category_link, link mahadevi_varma (u ''/kk/m'')] [] =
        poet_list_loop 5 [link mahadevi_varma (u ''/kk/m'')] []"
    using poet_list_skips_namespaces
      [where a = category_link and limit = 5 and as = "[link mahadevi_varma (u ''/kk/m'')]"
         and poets = "[]"] h
    by blast
  also have "\<dots> = [(mahadevi_varma, BASE_URL @ u ''/kk/m'')]"
    by (simp add: str_defs ex_defs Let_def)
  finally show ?thesis .
qed

text \<open>
  C2 as stated fails at the two other link loops: a link into the category namespace
  whose text has the form ``title / poet'' is collected as a work by \<open>get_poet_works\<close>
  and as a part by \<open>get_work_parts\<close>.
\<close>

theorem category_work_counterexample:
  "fst (get_poet_works (always (page_of_anchors [category_link])) mahadevi_varma (u ''x'') st0) =
     Inr [(aansu @ u '' / '' @ mahadevi_varma, BASE_URL @ CATEGORY_PREFIX @ u ''X'')] \<and>
   fst (get_work_parts (always (page_of_anchors [category_link])) mahadevi_varma (u ''x'') st0) =
     Inr ([(aansu @ u '' / '' @ mahadevi_varma, BASE_URL @ CATEGORY_PREFIX @ u ''X'')],
          page_of_anchors [category_link]) \<and>
   startswith (href_or_empty category_link) CATEGORY_PREFIX"
  by (simp add: get_poet_works_def get_work_parts_def get_soup_def Let_def str_defs ex_defs)

section \<open>Extracting the text of a poem\<close>

lemma try_selectors_yields:
  "try_selectors page sels =
     (case filter (\<lambda>sel. yields page sel \<noteq> []) sels of
        [] \<Rightarrow> None | sel # _ \<Rightarrow> Some (yields page sel))"
  by (induction sels) (auto simp: yields_def Let_def split: option.splits)

text \<open>
  C3, as the code has it. The three poem containers are tried in order and the first
  non-empty text is returned. Failing those, the text of the main content region is
  returned whenever that region exists, also when it is empty; the text of the whole page
  is returned only when the region does not exist.
\<close>

theorem extract_cascade:
  "extract_poem_text page =
     (if yields page ''.poem'' \<noteq> [] then yields page ''.poem''
      else if yields page ''#poem'' \<noteq> [] then yields page ''#poem''
      else if yields page ''div.mw-content-ltr'' \<noteq> [] then yields page ''div.mw-content-ltr''
      else (case select_one page ''#mw-content-text'' of
              Some content \<Rightarrow> get_text_nl content
            | None \<Rightarrow> soup_text_nl page))"
  by (simp add: extract_poem_text_def try_selectors_yields)

text \<open>
  C3 as stated fails: on a page with no poem container whose main content region exists
  and is empty, the result is the empty string although the page has text.
\<close>

theorem empty_content_counterexample:
  "extract_poem_text empty_content_page = [] \<and> soup_text_nl empty_content_page = u ''menu''"
  by (simp add: extract_poem_text_def empty_content_page_def)

text \<open>
  C4. \<open>extract_poem_text\<close> returns a text for every page: no step of it can raise, so
  the function has no error result, and what it returns is the text of an element of the
  page or the text of the page. When no poem container is found the result is the text
  of the main content region, possibly empty, or the page's text when there is no such
  region.
\<close>

theorem extract_poem_text_total:
  "(extract_poem_text page = soup_text_nl page \<or>
    (\<exists>selector block. select_one page selector = Some block \<and>
                       extract_poem_text page = get_text_nl block)) \<and>
   ((\<forall>selector \<in> set [''.poem'', ''#poem'', ''div.mw-content-ltr''].
        select_one page selector = None) \<longrightarrow>
    extract_poem_text page =
      (case select_one page ''#mw-content-text'' of
         Some content \<Rightarrow> get_text_nl content | None \<Rightarrow> soup_text_nl page))"
proof -
  let ?sels = "[''.poem'', ''#poem'', ''div.mw-content-ltr'']"
  have found: "try_selectors page sels = Some t \<Longrightarrow>
        \<exists>selector block. select_one page selector = Some block \<and> t = get_text_nl block"
    for sels t
    by (induction sels) (auto simp: Let_def split: option.splits if_splits)
  have none: "\<forall>selector \<in> set sels. select_one page selector = None \<Longrightarrow>
        try_selectors page sels = None" for sels
    by (induction sels) auto
  have 1: "extract_poem_text page = soup_text_nl page \<or>
    (\<exists>selector block. select_one page selector = Some block \<and>
                       extract_poem_text page = get_text_nl block)"
  proof (cases "try_selectors page ?sels")
    case None
    then show ?thesis
      unfolding extract_poem_text_def by (auto split: option.splits)
  next
    case (Some t)
    with found [OF Some] show ?thesis
      unfolding extract_poem_text_def by auto
  qed
  have 2: "(\<forall>selector \<in> set ?sels. select_one page selector = None) \<longrightarrow>
    extract_poem_text page =
      (case select_one page ''#mw-content-text'' of
         Some content \<Rightarrow> get_text_nl content | None \<Rightarrow> soup_text_nl page)"
  proof
    assume "\<forall>selector \<in> set ?sels. select_one page selector = None"
    then have "try_selectors page ?sels = None" by (rule none)
    then show "extract_poem_text page =
      (case select_one page ''#mw-content-text'' of
         Some content \<Rightarrow> get_text_nl content | None \<Rightarrow> soup_text_nl page)"
      unfolding extract_poem_text_def by simp
  qed
  from 1 2 show ?thesis by blast
qed

theorem extract_poem_text_total_witness:
  "extract_poem_text empty_content_page = []"
proof -
  have "\<forall>selector \<in> set [''.poem'', ''#poem'', ''div.mw-content-ltr''].
          select_one empty_content_page selector = None"
    by (simp add: empty_content_page_def)
  with extract_poem_text_total [of empty_content_page]
  have "extract_poem_text empty_content_page =
      (case select_one empty_content_page ''#mw-content-text'' of
         Some content \<Rightarrow> get_text_nl content | None \<Rightarrow> soup_text_nl empty_content_page)"
    by blast
  then show ?thesis by (simp add: empty_content_page_def)
qed


section \<open>Resolving a work\<close>

lemma scrape_parts_ok:
  "length pages = length parts \<Longrightarrow>
   (\<And>i. i < length parts \<Longrightarrow> web (length (fetched st) + i) (snd (parts ! i)) = Some (pages ! i)) \<Longrightarrow>
   scrape_parts web parts acc st =
     (Inr (acc @ map2 (\<lambda>(title, url) page. part_record title (extract_poem_text page)) parts pages),
      st\<lparr>fetched := fetched st @ map snd parts, sleeps := sleeps st + length parts\<rparr>)"
proof (induction parts arbitrary: pages acc st)
  case Nil
  then show ?case by simp
next
  case (Cons part parts)
  obtain title url where part: "part = (title, url)" by (cases part)
  from Cons.prems(1) obtain page rest where pages: "pages = page # rest"
    by (cases pages) auto
  from Cons.prems(2) [of 0] have w0: "web (length (fetched st)) url = Some page"
    by (simp add: part pages)
  let ?st1 = "sleep_polite (st\<lparr>fetched := fetched st @ [url]\<rparr>)"
  have step: "scrape_parts web (part # parts) acc st =
      scrape_parts web parts (acc @ [part_record title (extract_poem_text page)]) ?st1"
    by (simp add: part get_soup_def w0 Let_def part_record_def)
  have "web (length (fetched ?st1) + i) (snd (parts ! i)) = Some (rest ! i)"
    if "i < length parts" for i
    using Cons.prems(2) [of "Suc i"] that by (simp add: pages sleep_polite_def)
  with Cons.IH [of rest ?st1 "acc @ [part_record title (extract_poem_text page)]"] Cons.prems(1)
  have "scrape_parts web parts (acc @ [part_record title (extract_poem_text page)]) ?st1 =
     (Inr ((acc @ [part_record title (extract_poem_text page)]) @
            map2 (\<lambda>(title, url) page. part_record title (extract_poem_text page)) parts rest),
      ?st1\<lparr>fetched := fetched ?st1 @ map snd parts, sleeps := sleeps ?st1 + length parts\<rparr>)"
    by (simp add: pages)
  with step show ?case
    by (simp add: part pages sleep_polite_def)
qed

lemma scrape_parts_length:
  "scrape_parts web parts acc st = (Inr ps, st') \<Longrightarrow> length ps = length acc + length parts"
proof (induction parts arbitrary: acc st)
  case Nil
  then show ?case by simp
next
  case (Cons part parts)
  obtain title url where part: "part = (title, url)" by (cases part)
  from Cons.prems obtain psoup st1 where
    "scrape_parts web parts (acc @ [JObj [(''title'', JStr title),
        (''content'', JStr (extract_poem_text psoup))]]) (sleep_polite st1) = (Inr ps, st')"
    by (auto simp: part Let_def split: prod.splits sum.splits)
  from Cons.IH [OF this] show ?case by simp
qed

lemma scrape_parts_fail:
  "\<exists>i<length parts. web (length (fetched st) + i) (snd (parts ! i)) = None \<Longrightarrow>
   fst (scrape_parts web parts acc st) = Inl RetrievalError"
proof (induction parts arbitrary: acc st)
  case Nil
  then show ?case by simp
next
  case (Cons part parts)
  obtain title url where part: "part = (title, url)" by (cases part)
  show ?case
  proof (cases "web (length (fetched st)) url")
    case None
    then show ?thesis by (simp add: part get_soup_def)
  next
    case (Some psoup)
    from Cons.prems obtain i where i: "i < length (part # parts)"
      "web (length (fetched st) + i) (snd ((part # parts) ! i)) = None"
      by blast
    with Some obtain j where j: "i = Suc j" by (cases i) (auto simp: part)
    let ?st1 = "sleep_polite (st\<lparr>fetched := fetched st @ [url]\<rparr>)"
    from i j have "\<exists>j<length parts. web (length (fetched ?st1) + j) (snd (parts ! j)) = None"
      by (auto simp: sleep_polite_def)
    from Cons.IH [OF this] Some show ?thesis
      by (simp add: part get_soup_def Let_def)
  qed
qed

lemma solo_parts:
  "get_work_parts site mahadevi_varma (BASE_URL @ u ''/kk/s'') st0 =
     (Inr ([], poem_page (u ''solo'')), st0\<lparr>fetched := [BASE_URL @ u ''/kk/s'']\<rparr>)"
  by (simp add: get_work_parts_def get_soup_def Let_def str_defs ex_defs site_defs)

lemma w_parts:
  "get_work_parts site mahadevi_varma (BASE_URL @ u ''/kk/w'') st0 =
     (Inr ([(u ''P1 / '' @ mahadevi_varma, BASE_URL @ u ''/kk/p1''),
            (u ''P2 / '' @ mahadevi_varma, BASE_URL @ u ''/kk/p2'')], parts_page),
      st0\<lparr>fetched := [BASE_URL @ u ''/kk/w'']\<rparr>)"
  by (simp add: get_work_parts_def get_soup_def Let_def str_defs ex_defs site_defs)

lemma w_parts_down:
  "get_work_parts site_down mahadevi_varma (BASE_URL @ u ''/kk/w'') st0 =
     (Inr ([(u ''P1 / '' @ mahadevi_varma, BASE_URL @ u ''/kk/p1''),
            (u ''P2 / '' @ mahadevi_varma, BASE_URL @ u ''/kk/p2'')], parts_page),
      st0\<lparr>fetched := [BASE_URL @ u ''/kk/w'']\<rparr>)"
  by (simp add: get_work_parts_def get_soup_def Let_def str_defs ex_defs site_defs site_down_def)

lemma extract_poem_page: "text \<noteq> [] \<Longrightarrow> extract_poem_text (poem_page text) = text"
  by (simp add: extract_poem_text_def poem_page_def)

text \<open>
  C6. When \<open>get_work_parts\<close> finds no part on the work's page, \<open>scrape_work\<close> returns a
  single record with the work's title whose content is the text extracted from the page
  that \<open>get_work_parts\<close> fetched: the page the site gave for that one request, the only
  request made.
\<close>

theorem single_work:
  assumes "get_work_parts web poet_name work_url st = (Inr ([], page), st1)"
  shows "scrape_work web poet_name work_title work_url st =
           (Inr (single_record work_title (extract_poem_text page)), st1) \<and>
         web (length (fetched st)) work_url = Some page \<and>
         fetched st1 = fetched st @ [work_url]"
proof -
  from assms have "scrape_work web poet_name work_title work_url st =
      (Inr (single_record work_title (extract_poem_text page)), st1)"
    by (simp add: scrape_work_def single_record_def)
  moreover from assms have "web (length (fetched st)) work_url = Some page \<and>
      fetched st1 = fetched st @ [work_url]"
    by (auto simp: get_work_parts_def get_soup_def Let_def split: option.splits list.splits)
  ultimately show ?thesis by blast
qed

theorem single_work_witness:
  "scrape_work site mahadevi_varma aansu (BASE_URL @ u ''/kk/s'') st0 =
     (Inr (single_record aansu (u ''solo'')), st0\<lparr>fetched := [BASE_URL @ u ''/kk/s'']\<rparr>)"
  using single_work [OF solo_parts, of aansu]
  by (simp add: extract_poem_page u_def)

text \<open>
  C7, as the code has it. When \<open>get_work_parts\<close> finds \<open>N \<ge> 1\<close> parts, every record
  \<open>scrape_work\<close> returns is a multipart record with the work's title and exactly \<open>N\<close>
  parts, in the order of the links: the \<open>i\<close>-th part has the \<open>i\<close>-th link's title and the
  text extracted from the page fetched for the \<open>i\<close>-th link. It returns that record
  whenever the page of every part can be retrieved, the pages being requested in the order
  of the links with a pause after each. When the page of a part cannot be retrieved, the
  failure propagates and no record is returned.
\<close>

theorem multipart_work:
  assumes "get_work_parts web poet_name work_url st = (Inr (parts, page), st1)"
    and "parts \<noteq> []"
  shows
    "(length pages = length parts \<and>
      (\<forall>i<length parts. web (length (fetched st1) + i) (snd (parts ! i)) = Some (pages ! i)) \<longrightarrow>
        scrape_work web poet_name work_title work_url st =
          (Inr (multipart_record work_title
                  (map2 (\<lambda>(title, url) page. part_record title (extract_poem_text page))
                     parts pages)),
           st1\<lparr>fetched := fetched st1 @ map snd parts, sleeps := sleeps st1 + length parts\<rparr>) \<and>
        length (map2 (\<lambda>(title, url) page. part_record title (extract_poem_text page))
                  parts pages) = length parts) \<and>
     (fst (scrape_work web poet_name work_title work_url st) = Inr work_obj \<longrightarrow>
        (\<exists>pages. length pages = length parts \<and>
           (\<forall>i<length parts.
              web (length (fetched st1) + i) (snd (parts ! i)) = Some (pages ! i)) \<and>
           work_obj =
             multipart_record work_title
               (map2 (\<lambda>(title, url) page. part_record title (extract_poem_text page))
                  parts pages))) \<and>
     ((\<exists>i<length parts. web (length (fetched st1) + i) (snd (parts ! i)) = None) \<longrightarrow>
        fst (scrape_work web poet_name work_title work_url st) = Inl RetrievalError)"
proof -
  let ?rec = "\<lambda>pages. multipart_record work_title
      (map2 (\<lambda>(title, url) page. part_record title (extract_poem_text page)) parts pages)"
  have ok: "scrape_work web poet_name work_title work_url st =
          (Inr (?rec pages),
           st1\<lparr>fetched := fetched st1 @ map snd parts, sleeps := sleeps st1 + length parts\<rparr>)"
    if "length pages = length parts"
      and "\<forall>i<length parts. web (length (fetched st1) + i) (snd (parts ! i)) = Some (pages ! i)"
    for pages
  proof -
    from that have "scrape_parts web parts [] st1 =
       (Inr (map2 (\<lambda>(title, url) page. part_record title (extract_poem_text page)) parts pages),
        st1\<lparr>fetched := fetched st1 @ map snd parts, sleeps := sleeps st1 + length parts\<rparr>)"
      using scrape_parts_ok [of pages parts web st1 "[]"] by simp
    with assms show ?thesis
      by (simp add: scrape_work_def multipart_record_def)
  qed
  have down: "fst (scrape_work web poet_name work_title work_url st) = Inl RetrievalError"
    if "\<exists>i<length parts. web (length (fetched st1) + i) (snd (parts ! i)) = None"
  proof -
    from that have "fst (scrape_parts web parts [] st1) = Inl RetrievalError"
      by (rule scrape_parts_fail)
    then obtain st2 where "scrape_parts web parts [] st1 = (Inl RetrievalError, st2)"
      by (cases "scrape_parts web parts [] st1") auto
    with assms show ?thesis
      by (simp add: scrape_work_def)
  qed
  have complete: "\<exists>pages. length pages = length parts \<and>
           (\<forall>i<length parts.
              web (length (fetched st1) + i) (snd (parts ! i)) = Some (pages ! i)) \<and>
           work_obj = ?rec pages"
    if r: "fst (scrape_work web poet_name work_title work_url st) = Inr work_obj"
  proof -
    have all: "\<forall>i<length parts. web (length (fetched st1) + i) (snd (parts ! i)) \<noteq> None"
    proof (rule ccontr)
      assume "\<not> ?thesis"
      then have "\<exists>i<length parts. web (length (fetched st1) + i) (snd (parts ! i)) = None"
        by simp
      from down [OF this] r show False by simp
    qed
    let ?pages = "map (\<lambda>i. the (web (length (fetched st1) + i) (snd (parts ! i))))
                    [0..<length parts]"
    have len: "length ?pages = length parts" by simp
    have each: "\<forall>i<length parts.
        web (length (fetched st1) + i) (snd (parts ! i)) = Some (?pages ! i)"
      using all by auto
    from ok [OF len each] r have "work_obj = ?rec ?pages" by simp
    with len each show ?thesis by blast
  qed
  from ok down complete show ?thesis by auto
qed

theorem multipart_work_witness:
  "scrape_work site mahadevi_varma (u ''W'') (BASE_URL @ u ''/kk/w'') st0 =
     (Inr (multipart_record (u ''W'')
             [part_record (u ''P1 / '' @ mahadevi_varma) (u ''one''),
              part_record (u ''P2 / '' @ mahadevi_varma) (u ''two'')]),
      st0\<lparr>fetched := [BASE_URL @ u ''/kk/w'', BASE_URL @ u ''/kk/p1'', BASE_URL @ u ''/kk/p2''],
          sleeps := 2\<rparr>) \<and>
   fst (scrape_work site_down mahadevi_varma (u ''W'') (BASE_URL @ u ''/kk/w'') st0) =
     Inl RetrievalError"
proof -
  let ?parts = "[(u ''P1 / '' @ mahadevi_varma, BASE_URL @ u ''/kk/p1''),
            (u ''P2 / '' @ mahadevi_varma, BASE_URL @ u ''/kk/p2'')]"
  let ?pages = "[poem_page (u ''one''), poem_page (u ''two'')]"
  have ne: "?parts \<noteq> []" by simp
  have len: "length ?pages = length ?parts" by simp
  have fetch: "\<forall>i<length ?parts.
      site (length (fetched (st0\<lparr>fetched := [BASE_URL @ u ''/kk/w'']\<rparr>)) + i) (snd (?parts ! i)) =
      Some (?pages ! i)"
    by (simp add: less_Suc_eq site_def INDEX_URL_def str_defs)
  from multipart_work [OF w_parts ne, where pages = ?pages and work_title = "u ''W''"] len fetch
  have "scrape_work site mahadevi_varma (u ''W'') (BASE_URL @ u ''/kk/w'') st0 =
     (Inr (multipart_record (u ''W'')
             (map2 (\<lambda>(title, url) page. part_record title (extract_poem_text page))
                ?parts ?pages)),
      (st0\<lparr>fetched := [BASE_URL @ u ''/kk/w'']\<rparr>)
        \<lparr>fetched := fetched (st0\<lparr>fetched := [BASE_URL @ u ''/kk/w'']\<rparr>) @ map snd ?parts,
         sleeps := sleeps (st0\<lparr>fetched := [BASE_URL @ u ''/kk/w'']\<rparr>) + length ?parts\<rparr>)"
    by blast
  then have 1: "scrape_work site mahadevi_varma (u ''W'') (BASE_URL @ u ''/kk/w'') st0 =
     (Inr (multipart_record (u ''W'')
             [part_record (u ''P1 / '' @ mahadevi_varma) (u ''one''),
              part_record (u ''P2 / '' @ mahadevi_varma) (u ''two'')]),
      st0\<lparr>fetched := [BASE_URL @ u ''/kk/w'', BASE_URL @ u ''/kk/p1'', BASE_URL @ u ''/kk/p2''],
          sleeps := 2\<rparr>)"
    by (simp add: extract_poem_page u_def st0_def)
  have gone: "\<exists>i<length ?parts.
      site_down (length (fetched (st0\<lparr>fetched := [BASE_URL @ u ''/kk/w'']\<rparr>)) + i)
        (snd (?parts ! i)) = None"
    by (rule exI [of _ 1]) (simp add: site_down_def)
  from multipart_work [OF w_parts_down ne, where work_title = "u ''W''"] gone
  have 2: "fst (scrape_work site_down mahadevi_varma (u ''W'') (BASE_URL @ u ''/kk/w'') st0) =
     Inl RetrievalError"
    by blast
  from 1 2 show ?thesis by blast
qed

text \<open>
  C7 as stated fails when the page of a part cannot be retrieved: two parts are found on
  the work's page, and \<open>scrape_work\<close> returns no record but the retrieval failure.
\<close>

theorem part_down_counterexample:
  "fst (get_work_parts site_down mahadevi_varma (BASE_URL @ u ''/kk/w'') st0) =
     Inr ([(u ''P1 / '' @ mahadevi_varma, BASE_URL @ u ''/kk/p1''),
           (u ''P2 / '' @ mahadevi_varma, BASE_URL @ u ''/kk/p2'')], parts_page) \<and>
   fst (scrape_work site_down mahadevi_varma (u ''W'') (BASE_URL @ u ''/kk/w'') st0) =
     Inl RetrievalError"
  unfolding scrape_work_def w_parts_down
  by (simp add: get_soup_def site_down_def site_def INDEX_URL_def Let_def sleep_polite_def
      extract_poem_page st0_def str_defs)

text \<open>
  C8. Every record \<open>scrape_work\<close> returns satisfies the invariant of the data model.
\<close>

theorem work_record_invariant:
  assumes "fst (scrape_work web poet_name work_title work_url st) = Inr work_obj"
  shows "wf_work_record work_obj"
proof (cases "get_work_parts web poet_name work_url st")
  case (Pair r st1)
  show ?thesis
  proof (cases r)
    case (Inl e)
    with Pair assms show ?thesis by (simp add: scrape_work_def)
  next
    case (Inr pp)
    obtain parts page where pp: "pp = (parts, page)" by (cases pp)
    show ?thesis
    proof (cases "parts = []")
      case True
      with Pair Inr pp assms show ?thesis
        by (auto simp: scrape_work_def Let_def u_def)
    next
      case False
      obtain r2 st2 where sp: "scrape_parts web parts [] st1 = (r2, st2)"
        by (cases "scrape_parts web parts [] st1")
      show ?thesis
      proof (cases r2)
        case (Inl e)
        with Pair Inr pp False sp assms show ?thesis by (simp add: scrape_work_def)
      next
        case r2: (Inr ps)
        with sp have "length ps = length parts"
          using scrape_parts_length [of web parts "[]" st1 ps st2] by simp
        with False have "ps \<noteq> []" by auto
        with Pair Inr pp False sp r2 assms show ?thesis
          by (auto simp: scrape_work_def u_def)
      qed
    qed
  qed
qed


theorem work_record_invariant_witness:
  "wf_work_record (multipart_record (u ''W'')
             [part_record (u ''P1 / '' @ mahadevi_varma) (u ''one''),
              part_record (u ''P2 / '' @ mahadevi_varma) (u ''two'')]) \<and>
   wf_work_record (single_record aansu (u ''solo''))"
proof -
  have "fst (scrape_work site mahadevi_varma (u ''W'') (BASE_URL @ u ''/kk/w'') st0) =
     Inr (multipart_record (u ''W'')
             [part_record (u ''P1 / '' @ mahadevi_varma) (u ''one''),
              part_record (u ''P2 / '' @ mahadevi_varma) (u ''two'')])"
    unfolding scrape_work_def w_parts
    by (simp add: get_soup_def site_def INDEX_URL_def Let_def sleep_polite_def
        extract_poem_page multipart_record_def part_record_def st0_def str_defs)
  then have 1: "wf_work_record (multipart_record (u ''W'')
             [part_record (u ''P1 / '' @ mahadevi_varma) (u ''one''),
              part_record (u ''P2 / '' @ mahadevi_varma) (u ''two'')])"
    by (rule work_record_invariant)
  have "fst (scrape_work site mahadevi_varma aansu (BASE_URL @ u ''/kk/s'') st0) =
     Inr (single_record aansu (u ''solo''))"
    unfolding scrape_work_def solo_parts
    by (simp add: extract_poem_page single_record_def u_def)
  then have "wf_work_record (single_record aansu (u ''solo''))"
    by (rule work_record_invariant)
  with 1 show ?thesis by blast
qed

section \<open>The URLs of a run\<close>

text \<open>
  C10. In each of the three link loops an anchor whose href does not begin with \<open>/kk/\<close>
  is skipped, whatever its text is. The list each loop collects is the list of the entries
  of some anchors of the page, all with an href under \<open>/kk/\<close>; the entry of an anchor is
  its trimmed text with the site's base URL followed by that same anchor's href, and so a
  URL that begins with \<open>https://kavitakosh.org/kk/\<close>. Every URL a run of the program
  requests begins with that prefix, however the run ends.
\<close>

theorem urls_under_kk:
  "(\<not> startswith (href_or_empty a) KK_PREFIX \<longrightarrow>
      poet_list_loop limit (a # as) poets = poet_list_loop limit as poets \<and>
      poet_works_loop norm_poet main_name_token (a # as) works =
        poet_works_loop norm_poet main_name_token as works \<and>
      work_parts_loop norm_poet main_name_token (a # as) parts =
        work_parts_loop norm_poet main_name_token as parts) \<and>
   (\<forall>collected \<in> {poet_list_loop limit as [], poet_works_loop norm_poet main_name_token as [],
                    work_parts_loop norm_poet main_name_token as []}.
      (\<exists>candidates.
         collected =
           map (\<lambda>a. (py_strip (get_text a), BASE_URL @ href_or_empty a)) candidates \<and>
         (\<forall>a\<in>set candidates. a \<in> set as \<and> startswith (href_or_empty a) KK_PREFIX)) \<and>
      (\<forall>e\<in>set collected.
         (\<exists>a\<in>set as. startswith (href_or_empty a) KK_PREFIX \<and>
            e = (py_strip (get_text a), BASE_URL @ href_or_empty a)) \<and>
         under_kk (snd e))) \<and>
   (list_all under_kk (fetched st) \<longrightarrow>
      list_all under_kk (fetched (snd (main web can_open st))))"
proof -
  have skip: "\<not> startswith (href_or_empty a) KK_PREFIX \<longrightarrow>
      poet_list_loop limit (a # as) poets = poet_list_loop limit as poets \<and>
      poet_works_loop norm_poet main_name_token (a # as) works =
        poet_works_loop norm_poet main_name_token as works \<and>
      work_parts_loop norm_poet main_name_token (a # as) parts =
        work_parts_loop norm_poet main_name_token as parts"
    by (simp add: Let_def)
  let ?entry = "\<lambda>a. (py_strip (get_text a), BASE_URL @ href_or_empty a)"
  have entry: "entry = ?entry"
    by (simp add: entry_def anchor_text_def fun_eq_iff)
  have each: "(\<exists>a\<in>set as. startswith (href_or_empty a) KK_PREFIX \<and> e = ?entry a) \<and>
      under_kk (snd e)"
    if "collected = map ?entry candidates"
      and "\<forall>a\<in>set candidates. a \<in> set as \<and> startswith (href_or_empty a) KK_PREFIX"
      and "e \<in> set collected" for collected candidates e
  proof -
    from that obtain b where b: "b \<in> set candidates" "e = ?entry b" by auto
    with that(2) have "b \<in> set as" "startswith (href_or_empty b) KK_PREFIX" by auto
    with b show ?thesis by (auto simp: under_kk_base)
  qed
  have poets: "\<exists>candidates. poet_list_loop limit as [] = map ?entry candidates \<and>
      (\<forall>a\<in>set candidates. a \<in> set as \<and> startswith (href_or_empty a) KK_PREFIX)"
  proof (intro exI conjI)
    show "poet_list_loop limit as [] =
        map ?entry (take (nat (max 1 limit)) (filter poet_accept as))"
      by (simp add: poet_list_loop_filter take_map entry)
    show "\<forall>a\<in>set (take (nat (max 1 limit)) (filter poet_accept as)).
        a \<in> set as \<and> startswith (href_or_empty a) KK_PREFIX"
      by (auto dest!: in_set_takeD simp: poet_accept_def)
  qed
  have works: "\<exists>candidates.
      poet_works_loop norm_poet main_name_token as [] = map ?entry candidates \<and>
      (\<forall>a\<in>set candidates. a \<in> set as \<and> startswith (href_or_empty a) KK_PREFIX)"
  proof (intro exI conjI)
    show "poet_works_loop norm_poet main_name_token as [] =
        map ?entry (filter (work_accept norm_poet main_name_token) as)"
      by (simp add: poet_works_loop_filter entry)
    show "\<forall>a\<in>set (filter (work_accept norm_poet main_name_token) as).
        a \<in> set as \<and> startswith (href_or_empty a) KK_PREFIX"
      by (auto simp: work_accept_def)
  qed
  have parts: "\<exists>candidates.
      work_parts_loop norm_poet main_name_token as [] = map ?entry candidates \<and>
      (\<forall>a\<in>set candidates. a \<in> set as \<and> startswith (href_or_empty a) KK_PREFIX)"
    using works by (simp add: work_parts_loop_filter poet_works_loop_filter)
  have stored_for: "(\<exists>candidates. collected = map ?entry candidates \<and>
         (\<forall>a\<in>set candidates. a \<in> set as \<and> startswith (href_or_empty a) KK_PREFIX)) \<and>
      (\<forall>e\<in>set collected.
         (\<exists>a\<in>set as. startswith (href_or_empty a) KK_PREFIX \<and> e = ?entry a) \<and>
         under_kk (snd e))"
    if ex: "\<exists>candidates. collected = map ?entry candidates \<and>
         (\<forall>a\<in>set candidates. a \<in> set as \<and> startswith (href_or_empty a) KK_PREFIX)"
    for collected
  proof -
    from ex obtain candidates where c: "collected = map ?entry candidates"
      "\<forall>a\<in>set candidates. a \<in> set as \<and> startswith (href_or_empty a) KK_PREFIX"
      by blast
    have "\<forall>e\<in>set collected.
         (\<exists>a\<in>set as. startswith (href_or_empty a) KK_PREFIX \<and> e = ?entry a) \<and>
         under_kk (snd e)"
    proof
      fix e
      assume "e \<in> set collected"
      with c show "(\<exists>a\<in>set as. startswith (href_or_empty a) KK_PREFIX \<and> e = ?entry a) \<and>
         under_kk (snd e)"
        by (rule each)
    qed
    with ex show ?thesis by (rule conjI)
  qed
  have stored: "\<forall>collected \<in> {poet_list_loop limit as [],
        poet_works_loop norm_poet main_name_token as [],
        work_parts_loop norm_poet main_name_token as []}.
      (\<exists>candidates. collected = map ?entry candidates \<and>
         (\<forall>a\<in>set candidates. a \<in> set as \<and> startswith (href_or_empty a) KK_PREFIX)) \<and>
      (\<forall>e\<in>set collected.
         (\<exists>a\<in>set as. startswith (href_or_empty a) KK_PREFIX \<and> e = ?entry a) \<and>
         under_kk (snd e))"
    using stored_for [OF poets] stored_for [OF works] stored_for [OF parts]
    by (simp only: ball_simps bex_simps insert_iff empty_iff) blast
  have log: "list_all under_kk (fetched st) \<longrightarrow>
      list_all under_kk (fetched (snd (main web can_open st)))"
    using main_fetched [of st web can_open] by blast
  show ?thesis
    by (rule conjI [OF skip conjI [OF stored log]])
qed

theorem urls_under_kk_witness:
  "poet_list_loop 5 (link (u ''Elsewhere'') (u ''/wiki/e'') # content_anchors index_page) [] =
     poet_list_loop 5 (content_anchors index_page) [] \<and>
   poet_list_loop 5 (content_anchors index_page) [] = [(mahadevi_varma, BASE_URL @ u ''/kk/m'')] \<and>
   list_all under_kk (fetched (snd (main site (\<lambda>path. True) st0))) \<and>
   fetched (snd (main site (\<lambda>path. True) st0)) =
     [INDEX_URL, BASE_URL @ u ''/kk/m'', BASE_URL @ u ''/kk/w'', BASE_URL @ u ''/kk/p1'',
      BASE_URL @ u ''/kk/p2'', BASE_URL @ u ''/kk/s'']"
proof -
  have h1: "\<not> startswith (href_or_empty (link (u ''Elsewhere'') (u ''/wiki/e''))) KK_PREFIX"
    by (simp add: link_def href_or_empty_def startswith_def KK_PREFIX_def u_def)
  have h2: "list_all under_kk (fetched st0)" by (simp add: st0_def)
  from urls_under_kk
    [where a = "link (u ''Elsewhere'') (u ''/wiki/e'')" and limit = 5
       and as = "content_anchors index_page" and poets = "[]" and st = st0 and web = site
       and can_open = "\<lambda>path. True"] h1 h2
  have "poet_list_loop 5 (link (u ''Elsewhere'') (u ''/wiki/e'') # content_anchors index_page) [] =
     poet_list_loop 5 (content_anchors index_page) [] \<and>
   list_all under_kk (fetched (snd (main site (\<lambda>path. True) st0)))"
    by blast
  moreover have "poet_list_loop 5 (content_anchors index_page) [] =
      [(mahadevi_varma, BASE_URL @ u ''/kk/m'')]"
    by (simp add: Let_def str_defs ex_defs site_defs)
  ultimately show ?thesis using main_run by blast
qed

end
